theory Spec2Isabelle
  imports Complex_Main
begin

section \<open>WalkPath: the navigation assistant of \<open>yoe.py\<close>\<close>

text \<open>
  The program is one class, \<open>WalkPathNavApp\<close>, whose methods run on two threads: the
  Tk main loop (button handlers, the \<open>update_frame\<close> tick, the callbacks scheduled with
  \<open>window.after\<close>) and the worker threads running \<open>run_gemini_assistant\<close>, one
  created by every successful Start.
  The object's attributes are a record; every method takes the record and returns it
  updated. What a method does to the outside world (camera, dialogs, speech engine, the
  remote model, thread creation) is appended to \<open>trace\<close>, tagged with the thread that
  executes the call. What the outside world answers (whether the camera opened, what a
  read returned, what the remote call returned or raised, whether the speech engine
  failed, what \<open>time.time()\<close> read) is an argument of the method. Times are real numbers
  of seconds. \<open>on_close\<close> is \<open>stop_navigation\<close> followed by the end of the program and
  has no definition of its own.
\<close>

subsection \<open>Data\<close>

text \<open>A raw camera image (a numpy array). \<open>frame.copy()\<close> yields an equal value.\<close>
type_synonym frame = "nat list"

text \<open>
  A Python \<open>str\<close>: the list of its Unicode code points. \<open>lit\<close> is a string literal of
  the source, whose characters are all ASCII.
\<close>
type_synonym ustring = "nat list"

definition lit :: "string \<Rightarrow> ustring" where
  "lit cs = map of_char cs"

text \<open>The \<open>state\<close> option of a Tk button.\<close>
datatype btn_state = NORMAL | DISABLED

text \<open>The object \<open>cv2.VideoCapture(0)\<close> returns; the flag is what \<open>isOpened()\<close> answers.\<close>
datatype capture = VideoCapture bool

datatype thread = UiThread | WorkerThread

text \<open>\<open>tts_engine.say(text); tts_engine.runAndWait()\<close>: completes, or raises.\<close>
datatype tts_result = Spoken | EngineError ustring

text \<open>
  \<open>gemini_model.generate_content(...)\<close> followed by \<open>response.text\<close>: the text of the
  response, or an exception (time-out after 20 seconds, transport error, a response with
  no text part) carrying its message.
\<close>
datatype advisory_result = ResponseText ustring | Raised ustring

text \<open>
  Calls that leave the object. \<open>GenerateContent t f\<close> is the remote request sent with
  the image \<open>f\<close> by the loop pass that had just stored \<open>t\<close> in \<open>last_spoken_time\<close>; the
  prompt is the constant \<open>nav_prompt\<close> and the time-out the constant 20 seconds.
\<close>
datatype effect =
    OpenCamera
  | ShowError ustring ustring
  | ReadCamera
  | ReleaseCamera
  | ConfigStart btn_state
  | ConfigStop btn_state
  | ThreadStart
  | Say ustring
  | Print ustring
  | GenerateContent real frame
  | Sleep

text \<open>
  The attributes of \<open>WalkPathNavApp\<close>. \<open>video_label\<close> is \<open>None\<close> for the text
  "Camera is off" and \<open>Some f\<close> for the annotated rendering of the frame \<open>f\<close>.
  \<open>after_status\<close> and \<open>after_ticks\<close> are the callbacks registered with
  \<open>window.after\<close> and not yet run: the status texts in the order they were scheduled,
  and the number of pending \<open>update_frame\<close> calls. The threads created by
  \<open>start_navigation\<close> that have not left their loop are counted by where they stand:
  \<open>workers\<close> counts those at the head of the loop (line 181), \<open>passed\<close> those that have
  found the test of line 183 true and have not yet run line 184. \<open>ai_thread\<close> is the
  handle of the latest thread (its number).
\<close>
record app =
  is_running :: bool
  cap :: "capture option"
  latest_frame :: "frame option"
  ai_thread :: "nat option"
  last_spoken_time :: real
  btn_start :: btn_state
  btn_stop :: btn_state
  video_label :: "frame option"
  ai_status_label :: ustring
  after_status :: "ustring list"
  after_ticks :: nat
  workers :: nat
  passed :: nat
  trace :: "(thread \<times> effect) list"

text \<open>The state \<open>__init__\<close> and \<open>setup_gui\<close> leave behind (lines 37-41, 69, 79-88).\<close>
definition init_app :: app where
  "init_app = \<lparr> is_running = False, cap = None, latest_frame = None, ai_thread = None,
     last_spoken_time = 0, btn_start = NORMAL, btn_stop = DISABLED, video_label = None,
     ai_status_label = (lit ''Standing by...''), after_status = [], after_ticks = 0,
     workers = 0, passed = 0, trace = [] \<rparr>"

subsection \<open>Strings\<close>

text \<open>
  \<open>isspace\<close> is the whitespace test of \<open>str.strip()\<close> on a code point: the characters
  U+0009 to U+000D, U+001C to U+0020, U+0085, U+00A0, U+1680, U+2000 to U+200A, U+2028,
  U+2029, U+202F, U+205F and U+3000. \<open>strip\<close> is \<open>str.strip()\<close>, and \<open>remove_char c\<close> is
  \<open>str.replace(c, "")\<close> for a one-character \<open>c\<close>; \<open>asterisk\<close> is the code point of "*".
\<close>
definition isspace :: "nat \<Rightarrow> bool" where
  "isspace n =
     ((9 \<le> n \<and> n \<le> 13) \<or> (28 \<le> n \<and> n \<le> 32) \<or> n = 133 \<or> n = 160 \<or> n = 5760
      \<or> (8192 \<le> n \<and> n \<le> 8202) \<or> n = 8232 \<or> n = 8233 \<or> n = 8239 \<or> n = 8287
      \<or> n = 12288)"

definition strip :: "ustring \<Rightarrow> ustring" where
  "strip s = rev (dropWhile isspace (rev (dropWhile isspace s)))"

definition asterisk :: nat where
  "asterisk = 42"

definition remove_char :: "nat \<Rightarrow> ustring \<Rightarrow> ustring" where
  "remove_char c s = filter (\<lambda>x. x \<noteq> c) s"

subsection \<open>Methods\<close>

definition log :: "thread \<Rightarrow> effect \<Rightarrow> app \<Rightarrow> app" where
  "log th e s = s\<lparr>trace := trace s @ [(th, e)]\<rparr>"

text \<open>\<open>update_status_label\<close> (line 217): \<open>window.after(0, ...)\<close>, from any thread.\<close>
definition update_status_label :: "ustring \<Rightarrow> app \<Rightarrow> app" where
  "update_status_label txt s = s\<lparr>after_status := after_status s @ [txt]\<rparr>"

text \<open>\<open>speak\<close> (lines 206-212), on the thread of its caller.\<close>
definition speak :: "thread \<Rightarrow> tts_result \<Rightarrow> ustring \<Rightarrow> app \<Rightarrow> app" where
  "speak th r txt s =
     (case r of
        Spoken \<Rightarrow> log th (Say txt) s
      | EngineError e \<Rightarrow> log th (Print ((lit ''[TTS Error]: '') @ e)) (log th (Say txt) s))"

text \<open>
  \<open>update_frame\<close> (lines 139-162). \<open>rd\<close> is what \<open>cap.read()\<close> returns: \<open>None\<close> when
  \<open>ret\<close> is false. The detector and the image conversions are total on camera frames.
\<close>
definition update_frame :: "frame option \<Rightarrow> app \<Rightarrow> app" where
  "update_frame rd s =
     (if is_running s \<and> cap s \<noteq> None then
        (let s1 = log UiThread ReadCamera s;
             s2 = (case rd of
                     Some fr \<Rightarrow> s1\<lparr>latest_frame := Some fr, video_label := Some fr\<rparr>
                   | None \<Rightarrow> s1)
         in s2\<lparr>after_ticks := Suc (after_ticks s2)\<rparr>)
      else s)"

text \<open>
  \<open>start_navigation\<close> (lines 91-112). \<open>opened\<close> is whether the camera could be opened,
  \<open>tts\<close> how the announcement went, \<open>rd\<close> the first camera read.
\<close>
definition start_navigation :: "bool \<Rightarrow> tts_result \<Rightarrow> frame option \<Rightarrow> app \<Rightarrow> app" where
  "start_navigation opened tts rd s =
     (if is_running s then s
      else
        (let s1 = (log UiThread OpenCamera s)\<lparr>cap := Some (VideoCapture opened)\<rparr> in
         if \<not> (case cap s1 of Some (VideoCapture b) \<Rightarrow> b | None \<Rightarrow> False) then
           log UiThread (ShowError (lit ''Webcam Error'')
             (lit ''Could not access the webcam. Please ensure it is connected and not in use by another application.'')) s1
         else
           (let s2 = s1\<lparr>is_running := True\<rparr>;
                s3 = log UiThread (ConfigStart DISABLED) (s2\<lparr>btn_start := DISABLED\<rparr>);
                s4 = log UiThread (ConfigStop NORMAL) (s3\<lparr>btn_stop := NORMAL\<rparr>);
                s5 = update_status_label (lit ''Activating systems...'') s4;
                s6 = speak UiThread tts (lit ''Navigation system activated.'') s5;
                s7 = log UiThread ThreadStart
                       (s6\<lparr>ai_thread := Some (case ai_thread s6 of None \<Rightarrow> 0 | Some n \<Rightarrow> Suc n),
                            workers := Suc (workers s6)\<rparr>)
            in update_frame rd s7)))"

text \<open>\<open>stop_navigation\<close> (lines 114-130).\<close>
definition stop_navigation :: "tts_result \<Rightarrow> app \<Rightarrow> app" where
  "stop_navigation tts s =
     (if \<not> is_running s then s
      else
        (let s1 = s\<lparr>is_running := False\<rparr>;
             s2 = log UiThread (ConfigStart NORMAL) (s1\<lparr>btn_start := NORMAL\<rparr>);
             s3 = log UiThread (ConfigStop DISABLED) (s2\<lparr>btn_stop := DISABLED\<rparr>);
             s4 = (if cap s3 \<noteq> None then (log UiThread ReleaseCamera s3)\<lparr>cap := None\<rparr> else s3);
             s5 = s4\<lparr>video_label := None\<rparr>;
             s6 = update_status_label (lit ''System offline. Press Start to begin.'') s5
         in speak UiThread tts (lit ''Navigation system shutting down.'') s6))"

text \<open>
  The body of the loop of \<open>run_gemini_assistant\<close> (lines 183-204), in the three parts a
  thread runs one after the other. \<open>loop_test\<close> is the condition of line 183, with \<open>t1\<close>
  the reading of \<open>time.time()\<close> there. \<open>loop_dispatch\<close> is lines 184-201, with \<open>t2\<close> the
  reading of \<open>time.time()\<close> at line 184, \<open>res\<close> the outcome of the remote call and \<open>tts\<close>
  the outcome of speaking the cue; a missing frame at line 188 would raise inside the
  \<open>try\<close> before any request is sent, and the text of that exception is written
  \<open>''NoneType''\<close> here. Line 204 is the sleep.
\<close>
definition loop_test :: "real \<Rightarrow> app \<Rightarrow> bool" where
  "loop_test t1 s = (t1 - last_spoken_time s > 4 \<and> latest_frame s \<noteq> None)"

definition loop_dispatch :: "real \<Rightarrow> advisory_result \<Rightarrow> tts_result \<Rightarrow> app \<Rightarrow> app" where
  "loop_dispatch t2 res tts s =
     (let s1 = s\<lparr>last_spoken_time := t2\<rparr>;
          s2 = update_status_label (lit ''Analyzing scene...'') s1;
          failed = (\<lambda>e u. update_status_label (lit ''AI Error: Could not get navigation cue.'')
                            (log WorkerThread (Print (lit ''[Gemini Error]: '' @ e)) u))
      in case latest_frame s2 of
           None \<Rightarrow> failed (lit ''NoneType'') s2
         | Some fr \<Rightarrow>
             (let s3 = log WorkerThread (GenerateContent t2 fr) s2 in
              case res of
                ResponseText text \<Rightarrow>
                  (let advice = remove_char asterisk (strip text);
                       s4 = update_status_label (lit ''AI Cue: '' @ advice) s3
                   in speak WorkerThread tts advice s4)
              | Raised e \<Rightarrow> failed e s3))"

definition loop_body :: "real \<Rightarrow> real \<Rightarrow> advisory_result \<Rightarrow> tts_result \<Rightarrow> app \<Rightarrow> app" where
  "loop_body t1 t2 res tts s =
     log WorkerThread Sleep (if loop_test t1 s then loop_dispatch t2 res tts s else s)"

text \<open>
  One pass of a thread standing at the head of \<open>while self.is_running:\<close> (line 181),
  with no step of another thread in between: the thread leaves the loop when the flag is
  false, and runs the body otherwise.
\<close>
definition run_gemini_assistant ::
    "real \<Rightarrow> real \<Rightarrow> advisory_result \<Rightarrow> tts_result \<Rightarrow> app \<Rightarrow> app" where
  "run_gemini_assistant t1 t2 res tts s =
     (if workers s = 0 then s
      else if is_running s then loop_body t1 t2 res tts s
      else s\<lparr>workers := workers s - 1\<rparr>)"

text \<open>
  The same pass in the two steps between which another thread can run. \<open>worker_test\<close> is
  lines 181-183 for a thread at the head of the loop: it leaves the loop, or finds the
  test true and stands before line 184, or finds it false, sleeps and is back at the
  head. \<open>worker_dispatch\<close> is lines 184-204 for a thread standing before line 184.
\<close>
definition worker_test :: "real \<Rightarrow> app \<Rightarrow> app" where
  "worker_test t1 s =
     (if workers s = 0 then s
      else if \<not> is_running s then s\<lparr>workers := workers s - 1\<rparr>
      else if loop_test t1 s then s\<lparr>workers := workers s - 1, passed := Suc (passed s)\<rparr>
      else log WorkerThread Sleep s)"

definition worker_dispatch :: "real \<Rightarrow> advisory_result \<Rightarrow> tts_result \<Rightarrow> app \<Rightarrow> app" where
  "worker_dispatch t2 res tts s =
     (if passed s = 0 then s
      else log WorkerThread Sleep
             (loop_dispatch t2 res tts (s\<lparr>passed := passed s - 1, workers := Suc (workers s)\<rparr>)))"

subsection \<open>Schedules\<close>

text \<open>
  What happens to the object, in the order it happens: the two button handlers, a pending
  \<open>update_frame\<close> callback, the oldest pending status callback, and one pass of a worker
  thread through its loop, either whole (\<open>Worker\<close>) or in its two steps (\<open>Test\<close>, then
  \<open>Dispatch\<close>), between which the user-interface thread and the other worker threads can
  take steps of their own. What the user-interface thread does while a thread waits for the
  remote model or for the speech engine comes after that thread's \<open>Dispatch\<close> in the
  schedule.
\<close>
datatype event =
    Start bool tts_result "frame option"
  | Stop tts_result
  | Tick "frame option"
  | ShowStatus
  | Worker real real advisory_result tts_result
  | Test real
  | Dispatch real advisory_result tts_result

fun step :: "event \<Rightarrow> app \<Rightarrow> app" where
  "step (Start opened tts rd) s = start_navigation opened tts rd s"
| "step (Stop tts) s = stop_navigation tts s"
| "step (Tick rd) s =
     (if after_ticks s = 0 then s else update_frame rd (s\<lparr>after_ticks := after_ticks s - 1\<rparr>))"
| "step ShowStatus s =
     (case after_status s of
        [] \<Rightarrow> s
      | txt # rest \<Rightarrow> s\<lparr>ai_status_label := txt, after_status := rest\<rparr>)"
| "step (Worker t1 t2 res tts) s = run_gemini_assistant t1 t2 res tts s"
| "step (Test t1) s = worker_test t1 s"
| "step (Dispatch t2 res tts) s = worker_dispatch t2 res tts s"

fun exec :: "event list \<Rightarrow> app \<Rightarrow> app" where
  "exec [] s = s"
| "exec (e # es) s = exec es (step e s)"

subsection \<open>Reading a trace\<close>

text \<open>The texts thread \<open>th\<close> handed to the speech engine, in order.\<close>
definition said :: "thread \<Rightarrow> (thread \<times> effect) list \<Rightarrow> ustring list" where
  "said th tr = concat (map (\<lambda>(th', e). case e of Say t \<Rightarrow> (if th' = th then [t] else []) | _ \<Rightarrow> []) tr)"

text \<open>The remote requests: the time stored in \<open>last_spoken_time\<close> and the image sent.\<close>
definition requests :: "(thread \<times> effect) list \<Rightarrow> (real \<times> frame) list" where
  "requests tr = concat (map (\<lambda>(th, e). case e of GenerateContent t f \<Rightarrow> [(t, f)] | _ \<Rightarrow> []) tr)"

text \<open>How many times the camera was released.\<close>
definition releases :: "(thread \<times> effect) list \<Rightarrow> nat" where
  "releases tr = length (filter (\<lambda>(th, e). e = ReleaseCamera) tr)"

text \<open>Every two consecutive times of the list are more than 4 seconds apart.\<close>
fun spaced :: "real list \<Rightarrow> bool" where
  "spaced (a # b # r) = (4 < b - a \<and> spaced (b # r))"
| "spaced _ = True"

text \<open>The readings of \<open>time.time()\<close> a schedule holds, in the order they are taken.\<close>
fun readings :: "event list \<Rightarrow> real list" where
  "readings [] = []"
| "readings (Worker t1 t2 res tts # es) = t1 # t2 # readings es"
| "readings (Test t1 # es) = t1 # readings es"
| "readings (Dispatch t2 res tts # es) = t2 # readings es"
| "readings (_ # es) = readings es"

text \<open>
  Before every step of the schedule, and after the last, at most one worker thread is in
  its loop.
\<close>
fun solo :: "event list \<Rightarrow> app \<Rightarrow> bool" where
  "solo [] s = (workers s + passed s \<le> 1)"
| "solo (e # es) s = (workers s + passed s \<le> 1 \<and> solo es (step e s))"

text \<open>The schedule holds no step that stores a frame: no successful camera read.\<close>
fun no_write :: "event list \<Rightarrow> bool" where
  "no_write [] = True"
| "no_write (Tick (Some fr) # es) = False"
| "no_write (Start opened tts (Some fr) # es) = False"
| "no_write (_ # es) = no_write es"

text \<open>The frames the camera returns in a schedule.\<close>
fun captured :: "event list \<Rightarrow> frame list" where
  "captured [] = []"
| "captured (Tick (Some fr) # es) = fr # captured es"
| "captured (Start opened tts (Some fr) # es) = fr # captured es"
| "captured (_ # es) = captured es"

text \<open>The schedule holds no call of the Stop handler.\<close>
fun no_stop :: "event list \<Rightarrow> bool" where
  "no_stop [] = True"
| "no_stop (Stop tts # es) = False"
| "no_stop (_ # es) = no_stop es"

text \<open>The schedule holds only ticks whose camera read failed.\<close>
fun failed_ticks :: "event list \<Rightarrow> bool" where
  "failed_ticks [] = True"
| "failed_ticks (Tick None # es) = failed_ticks es"
| "failed_ticks (_ # es) = False"

text \<open>
  What the user-interface thread may do according to the code: it never sends a remote
  request, and it speaks only the two announcements of the handlers.
\<close>
fun ui_effect :: "thread \<times> effect \<Rightarrow> bool" where
  "ui_effect (UiThread, GenerateContent t f) = False"
| "ui_effect (UiThread, Say txt) =
     (txt = (lit ''Navigation system activated.'') \<or> txt = (lit ''Navigation system shutting down.''))"
| "ui_effect _ = True"

text \<open>The first occurrence of \<open>a\<close> comes before the first occurrence of \<open>b\<close>.\<close>
definition before :: "'a \<Rightarrow> 'a \<Rightarrow> 'a list \<Rightarrow> bool" where
  "before a b xs = (a \<in> set (takeWhile (\<lambda>x. x \<noteq> b) xs) \<and> b \<in> set xs)"

text \<open>
  What holds of a state when the clock has reached \<open>now\<close> and one worker at most is in its
  loop: the requests sent so far are spaced, the latest one was sent at the time held in
  \<open>last_spoken_time\<close>, and a thread standing before line 184 has seen a frame and a
  clock more than 4 seconds past that time.
\<close>
definition stamped :: "real \<Rightarrow> app \<Rightarrow> bool" where
  "stamped now s =
     (spaced (map fst (requests (trace s)))
      \<and> (requests (trace s) = [] \<or> last (map fst (requests (trace s))) = last_spoken_time s)
      \<and> (passed s = 0 \<or> (latest_frame s \<noteq> None \<and> 4 < now - last_spoken_time s)))"

section \<open>Properties\<close>

subsection \<open>What each method does to each attribute\<close>

lemma log_sel:
  "is_running (log th e s) = is_running s"
  "cap (log th e s) = cap s"
  "latest_frame (log th e s) = latest_frame s"
  "ai_thread (log th e s) = ai_thread s"
  "last_spoken_time (log th e s) = last_spoken_time s"
  "btn_start (log th e s) = btn_start s"
  "btn_stop (log th e s) = btn_stop s"
  "video_label (log th e s) = video_label s"
  "ai_status_label (log th e s) = ai_status_label s"
  "after_status (log th e s) = after_status s"
  "after_ticks (log th e s) = after_ticks s"
  "workers (log th e s) = workers s"
  "passed (log th e s) = passed s"
  "trace (log th e s) = trace s @ [(th, e)]"
  by (simp_all add: log_def)

lemma status_sel:
  "is_running (update_status_label txt s) = is_running s"
  "cap (update_status_label txt s) = cap s"
  "latest_frame (update_status_label txt s) = latest_frame s"
  "ai_thread (update_status_label txt s) = ai_thread s"
  "last_spoken_time (update_status_label txt s) = last_spoken_time s"
  "btn_start (update_status_label txt s) = btn_start s"
  "btn_stop (update_status_label txt s) = btn_stop s"
  "video_label (update_status_label txt s) = video_label s"
  "ai_status_label (update_status_label txt s) = ai_status_label s"
  "after_status (update_status_label txt s) = after_status s @ [txt]"
  "after_ticks (update_status_label txt s) = after_ticks s"
  "workers (update_status_label txt s) = workers s"
  "passed (update_status_label txt s) = passed s"
  "trace (update_status_label txt s) = trace s"
  by (simp_all add: update_status_label_def)

lemma speak_sel:
  "is_running (speak th r txt s) = is_running s"
  "cap (speak th r txt s) = cap s"
  "latest_frame (speak th r txt s) = latest_frame s"
  "ai_thread (speak th r txt s) = ai_thread s"
  "last_spoken_time (speak th r txt s) = last_spoken_time s"
  "btn_start (speak th r txt s) = btn_start s"
  "btn_stop (speak th r txt s) = btn_stop s"
  "video_label (speak th r txt s) = video_label s"
  "ai_status_label (speak th r txt s) = ai_status_label s"
  "after_status (speak th r txt s) = after_status s"
  "after_ticks (speak th r txt s) = after_ticks s"
  "workers (speak th r txt s) = workers s"
  "passed (speak th r txt s) = passed s"
  "trace (speak th r txt s) = trace s @ (th, Say txt) #
     (case r of Spoken \<Rightarrow> [] | EngineError e \<Rightarrow> [(th, Print ((lit ''[TTS Error]: '') @ e))])"
  by (simp_all add: speak_def log_def split: tts_result.splits)

lemma update_frame_sel:
  "is_running (update_frame rd s) = is_running s"
  "cap (update_frame rd s) = cap s"
  "latest_frame (update_frame rd s) =
     (if is_running s \<and> cap s \<noteq> None \<and> rd \<noteq> None then rd else latest_frame s)"
  "ai_thread (update_frame rd s) = ai_thread s"
  "last_spoken_time (update_frame rd s) = last_spoken_time s"
  "btn_start (update_frame rd s) = btn_start s"
  "btn_stop (update_frame rd s) = btn_stop s"
  "ai_status_label (update_frame rd s) = ai_status_label s"
  "after_status (update_frame rd s) = after_status s"
  "after_ticks (update_frame rd s) =
     (if is_running s \<and> cap s \<noteq> None then Suc (after_ticks s) else after_ticks s)"
  "workers (update_frame rd s) = workers s"
  "passed (update_frame rd s) = passed s"
  "trace (update_frame rd s) =
     trace s @ (if is_running s \<and> cap s \<noteq> None then [(UiThread, ReadCamera)] else [])"
  by (auto simp: update_frame_def Let_def log_def split: option.splits)

lemmas sels = log_sel status_sel speak_sel update_frame_sel

lemma start_sel:
  "is_running (start_navigation opened tts rd s) = (is_running s \<or> opened)"
  "last_spoken_time (start_navigation opened tts rd s) = last_spoken_time s"
  "latest_frame (start_navigation opened tts rd s) =
     (if \<not> is_running s \<and> opened \<and> rd \<noteq> None then rd else latest_frame s)"
  "cap (start_navigation opened tts rd s) =
     (if is_running s then cap s else Some (VideoCapture opened))"
  "workers (start_navigation opened tts rd s) =
     (if \<not> is_running s \<and> opened then Suc (workers s) else workers s)"
  "passed (start_navigation opened tts rd s) = passed s"
  "after_ticks (start_navigation opened tts rd s) =
     (if \<not> is_running s \<and> opened then Suc (after_ticks s) else after_ticks s)"
  "after_status (start_navigation opened tts rd s) =
     after_status s @ (if \<not> is_running s \<and> opened then [(lit ''Activating systems...'')] else [])"
  by (simp_all add: start_navigation_def Let_def sels)

lemma start_trace:
  "trace (start_navigation opened tts rd s) =
     trace s @
     (if is_running s then []
      else if \<not> opened then
        [(UiThread, OpenCamera),
         (UiThread, ShowError (lit ''Webcam Error'')
           (lit ''Could not access the webcam. Please ensure it is connected and not in use by another application.''))]
      else
        [(UiThread, OpenCamera), (UiThread, ConfigStart DISABLED), (UiThread, ConfigStop NORMAL),
         (UiThread, Say (lit ''Navigation system activated.''))]
        @ (case tts of Spoken \<Rightarrow> [] | EngineError e \<Rightarrow> [(UiThread, Print ((lit ''[TTS Error]: '') @ e))])
        @ [(UiThread, ThreadStart), (UiThread, ReadCamera)])"
  by (simp add: start_navigation_def Let_def sels)

lemma stop_sel:
  "is_running (stop_navigation tts s) = False"
  "last_spoken_time (stop_navigation tts s) = last_spoken_time s"
  "latest_frame (stop_navigation tts s) = latest_frame s"
  "ai_thread (stop_navigation tts s) = ai_thread s"
  "workers (stop_navigation tts s) = workers s"
  "passed (stop_navigation tts s) = passed s"
  "after_ticks (stop_navigation tts s) = after_ticks s"
  "cap (stop_navigation tts s) = (if is_running s then None else cap s)"
  "btn_start (stop_navigation tts s) = (if is_running s then NORMAL else btn_start s)"
  "btn_stop (stop_navigation tts s) = (if is_running s then DISABLED else btn_stop s)"
  "video_label (stop_navigation tts s) = (if is_running s then None else video_label s)"
  "after_status (stop_navigation tts s) =
     after_status s @ (if is_running s then [(lit ''System offline. Press Start to begin.'')] else [])"
  by (simp_all add: stop_navigation_def Let_def sels)

lemma stop_trace:
  "trace (stop_navigation tts s) =
     trace s @
     (if is_running s then
        [(UiThread, ConfigStart NORMAL), (UiThread, ConfigStop DISABLED)]
        @ (if cap s \<noteq> None then [(UiThread, ReleaseCamera)] else [])
        @ [(UiThread, Say (lit ''Navigation system shutting down.''))]
        @ (case tts of Spoken \<Rightarrow> [] | EngineError e \<Rightarrow> [(UiThread, Print ((lit ''[TTS Error]: '') @ e))])
      else [])"
  by (simp add: stop_navigation_def Let_def sels)

lemma dispatch_sel:
  "is_running (loop_dispatch t2 res tts s) = is_running s"
  "cap (loop_dispatch t2 res tts s) = cap s"
  "latest_frame (loop_dispatch t2 res tts s) = latest_frame s"
  "workers (loop_dispatch t2 res tts s) = workers s"
  "passed (loop_dispatch t2 res tts s) = passed s"
  "after_ticks (loop_dispatch t2 res tts s) = after_ticks s"
  "last_spoken_time (loop_dispatch t2 res tts s) = t2"
  "after_status (loop_dispatch t2 res tts s) =
     after_status s @
     [(lit ''Analyzing scene...''),
      (case latest_frame s of
         None \<Rightarrow> (lit ''AI Error: Could not get navigation cue.'')
       | Some fr \<Rightarrow>
           (case res of
              ResponseText txt \<Rightarrow> (lit ''AI Cue: '') @ remove_char asterisk (strip txt)
            | Raised e \<Rightarrow> (lit ''AI Error: Could not get navigation cue.'')))]"
  by (auto simp: loop_dispatch_def Let_def sels
      split: option.splits advisory_result.splits tts_result.splits)

lemma dispatch_trace:
  "trace (loop_dispatch t2 res tts s) =
     trace s @
     (case latest_frame s of
        None \<Rightarrow> [(WorkerThread, Print ((lit ''[Gemini Error]: '') @ (lit ''NoneType'')))]
      | Some fr \<Rightarrow>
          (WorkerThread, GenerateContent t2 fr) #
          (case res of
             ResponseText txt \<Rightarrow>
               (WorkerThread, Say (remove_char asterisk (strip txt))) #
               (case tts of
                  Spoken \<Rightarrow> []
                | EngineError e \<Rightarrow> [(WorkerThread, Print ((lit ''[TTS Error]: '') @ e))])
           | Raised e \<Rightarrow> [(WorkerThread, Print ((lit ''[Gemini Error]: '') @ e))]))"
  by (auto simp: loop_dispatch_def Let_def sels
      split: option.splits advisory_result.splits tts_result.splits)

lemma worker_sel:
  "is_running (run_gemini_assistant t1 t2 res tts s) = is_running s"
  "cap (run_gemini_assistant t1 t2 res tts s) = cap s"
  "latest_frame (run_gemini_assistant t1 t2 res tts s) = latest_frame s"
  "workers (run_gemini_assistant t1 t2 res tts s) =
     (if is_running s then workers s else workers s - 1)"
  "passed (run_gemini_assistant t1 t2 res tts s) = passed s"
  "after_ticks (run_gemini_assistant t1 t2 res tts s) = after_ticks s"
  "last_spoken_time (run_gemini_assistant t1 t2 res tts s) =
     (if 0 < workers s \<and> is_running s \<and> 4 < t1 - last_spoken_time s \<and> latest_frame s \<noteq> None
      then t2 else last_spoken_time s)"
  "after_status (run_gemini_assistant t1 t2 res tts s) =
     after_status s @
     (if 0 < workers s \<and> is_running s \<and> 4 < t1 - last_spoken_time s \<and> latest_frame s \<noteq> None
      then [(lit ''Analyzing scene...''),
            (case res of
               ResponseText txt \<Rightarrow> (lit ''AI Cue: '') @ remove_char asterisk (strip txt)
             | Raised e \<Rightarrow> (lit ''AI Error: Could not get navigation cue.''))]
      else [])"
  by (auto simp: run_gemini_assistant_def loop_body_def loop_test_def dispatch_sel dispatch_trace
      log_sel split: option.splits advisory_result.splits tts_result.splits)

lemma worker_trace:
  "trace (run_gemini_assistant t1 t2 res tts s) =
     trace s @
     (if 0 < workers s \<and> is_running s then
        (case latest_frame s of
           Some fr \<Rightarrow>
             if 4 < t1 - last_spoken_time s then
               (WorkerThread, GenerateContent t2 fr) #
               (case res of
                  ResponseText txt \<Rightarrow>
                    (WorkerThread, Say (remove_char asterisk (strip txt))) #
                    (case tts of
                       Spoken \<Rightarrow> []
                     | EngineError e \<Rightarrow> [(WorkerThread, Print ((lit ''[TTS Error]: '') @ e))])
                | Raised e \<Rightarrow> [(WorkerThread, Print ((lit ''[Gemini Error]: '') @ e))])
             else []
         | None \<Rightarrow> [])
        @ [(WorkerThread, Sleep)]
      else [])"
  by (auto simp: run_gemini_assistant_def loop_body_def loop_test_def dispatch_sel dispatch_trace
      log_sel split: option.splits advisory_result.splits tts_result.splits)

lemma test_sel:
  "is_running (worker_test t1 s) = is_running s"
  "cap (worker_test t1 s) = cap s"
  "latest_frame (worker_test t1 s) = latest_frame s"
  "last_spoken_time (worker_test t1 s) = last_spoken_time s"
  "after_status (worker_test t1 s) = after_status s"
  "after_ticks (worker_test t1 s) = after_ticks s"
  "workers (worker_test t1 s) =
     (if 0 < workers s \<and> (\<not> is_running s \<or> loop_test t1 s) then workers s - 1 else workers s)"
  "passed (worker_test t1 s) =
     (if 0 < workers s \<and> is_running s \<and> loop_test t1 s then Suc (passed s) else passed s)"
  by (simp_all add: worker_test_def log_sel)

lemma test_trace:
  "trace (worker_test t1 s) =
     trace s @ (if 0 < workers s \<and> is_running s \<and> \<not> loop_test t1 s
                then [(WorkerThread, Sleep)] else [])"
  by (simp add: worker_test_def log_sel)

lemma wdispatch_sel:
  "is_running (worker_dispatch t2 res tts s) = is_running s"
  "cap (worker_dispatch t2 res tts s) = cap s"
  "latest_frame (worker_dispatch t2 res tts s) = latest_frame s"
  "last_spoken_time (worker_dispatch t2 res tts s) =
     (if 0 < passed s then t2 else last_spoken_time s)"
  "workers (worker_dispatch t2 res tts s) = (if 0 < passed s then Suc (workers s) else workers s)"
  "passed (worker_dispatch t2 res tts s) = passed s - 1"
  "after_ticks (worker_dispatch t2 res tts s) = after_ticks s"
  by (simp_all add: worker_dispatch_def log_sel dispatch_sel)

lemma wdispatch_trace:
  "trace (worker_dispatch t2 res tts s) =
     (if 0 < passed s
      then trace (loop_dispatch t2 res tts s) @ [(WorkerThread, Sleep)]
      else trace s)"
  by (simp add: worker_dispatch_def log_sel dispatch_trace)

text \<open>A whole pass is the test followed at once by the dispatch of the same thread.\<close>
lemma pass_in_two_steps:
  "run_gemini_assistant t1 t2 res tts s =
     (if 0 < workers s \<and> is_running s \<and> loop_test t1 s
      then worker_dispatch t2 res tts (worker_test t1 s)
      else worker_test t1 s)"
  by (simp add: run_gemini_assistant_def loop_body_def worker_test_def worker_dispatch_def)

lemma step_sel:
  "last_spoken_time (step (Tick rd) s) = last_spoken_time s"
  "is_running (step (Tick rd) s) = is_running s"
  "cap (step (Tick rd) s) = cap s"
  "workers (step (Tick rd) s) = workers s"
  "passed (step (Tick rd) s) = passed s"
  "latest_frame (step (Tick rd) s) =
     (if 0 < after_ticks s \<and> is_running s \<and> cap s \<noteq> None \<and> rd \<noteq> None then rd
      else latest_frame s)"
  "last_spoken_time (step ShowStatus s) = last_spoken_time s"
  "is_running (step ShowStatus s) = is_running s"
  "cap (step ShowStatus s) = cap s"
  "workers (step ShowStatus s) = workers s"
  "passed (step ShowStatus s) = passed s"
  "latest_frame (step ShowStatus s) = latest_frame s"
  "trace (step ShowStatus s) = trace s"
  by (auto simp: sels split: list.splits)

lemma tick_trace:
  "trace (step (Tick rd) s) =
     trace s @ (if 0 < after_ticks s \<and> is_running s \<and> cap s \<noteq> None
                then [(UiThread, ReadCamera)] else [])"
  by (auto simp: sels)

lemma requests_append: "requests (xs @ ys) = requests xs @ requests ys"
  by (simp add: requests_def)

lemma said_append: "said th (xs @ ys) = said th xs @ said th ys"
  by (simp add: said_def)

lemma releases_append: "releases (xs @ ys) = releases xs + releases ys"
  by (simp add: releases_def)

lemma requests_simps:
  "requests [] = []"
  "requests ((th, GenerateContent t fr) # xs) = (t, fr) # requests xs"
  "requests ((th, Say txt) # xs) = requests xs"
  "requests ((th, Print txt) # xs) = requests xs"
  "requests ((th, Sleep) # xs) = requests xs"
  "requests ((th, OpenCamera) # xs) = requests xs"
  "requests ((th, ShowError a b) # xs) = requests xs"
  "requests ((th, ReadCamera) # xs) = requests xs"
  "requests ((th, ReleaseCamera) # xs) = requests xs"
  "requests ((th, ConfigStart bs) # xs) = requests xs"
  "requests ((th, ConfigStop bs) # xs) = requests xs"
  "requests ((th, ThreadStart) # xs) = requests xs"
  by (simp_all add: requests_def)

lemma said_simps:
  "said th [] = []"
  "said th ((th', Say txt) # xs) = (if th' = th then [txt] else []) @ said th xs"
  "said th ((th', GenerateContent t fr) # xs) = said th xs"
  "said th ((th', Print txt) # xs) = said th xs"
  "said th ((th', Sleep) # xs) = said th xs"
  "said th ((th', OpenCamera) # xs) = said th xs"
  "said th ((th', ShowError a b) # xs) = said th xs"
  "said th ((th', ReadCamera) # xs) = said th xs"
  "said th ((th', ReleaseCamera) # xs) = said th xs"
  "said th ((th', ConfigStart bs) # xs) = said th xs"
  "said th ((th', ConfigStop bs) # xs) = said th xs"
  "said th ((th', ThreadStart) # xs) = said th xs"
  by (simp_all add: said_def)

lemma releases_simps:
  "releases [] = 0"
  "releases ((th, ReleaseCamera) # xs) = Suc (releases xs)"
  "releases ((th, GenerateContent t fr) # xs) = releases xs"
  "releases ((th, Say txt) # xs) = releases xs"
  "releases ((th, Print txt) # xs) = releases xs"
  "releases ((th, Sleep) # xs) = releases xs"
  "releases ((th, OpenCamera) # xs) = releases xs"
  "releases ((th, ShowError a b) # xs) = releases xs"
  "releases ((th, ReadCamera) # xs) = releases xs"
  "releases ((th, ConfigStart bs) # xs) = releases xs"
  "releases ((th, ConfigStop bs) # xs) = releases xs"
  "releases ((th, ThreadStart) # xs) = releases xs"
  by (simp_all add: releases_def)

lemmas trace_simps = requests_append said_append releases_append
  requests_simps said_simps releases_simps

lemma worker_requests:
  "requests (trace (run_gemini_assistant t1 t2 res tts s)) =
     requests (trace s) @
       (case latest_frame s of
          Some fr \<Rightarrow>
            if 0 < workers s \<and> is_running s \<and> 4 < t1 - last_spoken_time s then [(t2, fr)] else []
        | None \<Rightarrow> [])"
  by (simp add: worker_trace trace_simps
      split: option.splits advisory_result.splits tts_result.splits)

lemma start_requests: "requests (trace (start_navigation opened tts rd s)) = requests (trace s)"
  by (simp add: start_trace trace_simps split: tts_result.splits)

lemma stop_requests: "requests (trace (stop_navigation tts s)) = requests (trace s)"
  by (simp add: stop_trace trace_simps split: tts_result.splits)

lemma tick_requests: "requests (trace (step (Tick rd) s)) = requests (trace s)"
  by (simp add: sels trace_simps)

subsection \<open>The status queue\<close>

lemma show_all:
  "after_status s = q \<Longrightarrow> q \<noteq> [] \<Longrightarrow>
   ai_status_label (exec (replicate (length q) ShowStatus) s) = last q"
proof (induction q arbitrary: s)
  case Nil
  then show ?case by simp
next
  case (Cons a q)
  show ?case
  proof (cases q)
    case Nil
    then show ?thesis using Cons.prems by simp
  next
    case (Cons b r)
    let ?s1 = "s\<lparr>ai_status_label := a, after_status := q\<rparr>"
    have "after_status ?s1 = q" by simp
    from Cons.IH[OF this] Cons show ?thesis using Cons.prems by simp
  qed
qed

subsection \<open>Cleaning the response\<close>

lemma strip_decomp:
  "\<exists>pre post. txt = pre @ strip txt @ post \<and> list_all isspace pre \<and> list_all isspace post"
proof -
  let ?rest = "dropWhile isspace txt"
  let ?pre = "takeWhile isspace txt"
  let ?post = "rev (takeWhile isspace (rev ?rest))"
  have "?rest = rev (takeWhile isspace (rev ?rest) @ dropWhile isspace (rev ?rest))"
    by (simp only: takeWhile_dropWhile_id rev_rev_ident)
  then have r: "?rest = strip txt @ ?post"
    by (simp only: rev_append strip_def)
  have "txt = ?pre @ ?rest" by simp
  with r have "txt = ?pre @ strip txt @ ?post" by simp
  moreover have "list_all isspace ?pre" by (auto simp: list_all_iff dest: set_takeWhileD)
  moreover have "list_all isspace ?post" by (auto simp: list_all_iff dest: set_takeWhileD)
  ultimately show ?thesis by blast
qed

lemma strip_ends:
  "strip txt = [] \<or> (\<not> isspace (hd (strip txt)) \<and> \<not> isspace (last (strip txt)))"
proof (cases "strip txt = []")
  case True
  then show ?thesis by simp
next
  case False
  let ?rest = "dropWhile isspace txt"
  let ?d = "dropWhile isspace (rev ?rest)"
  have d: "?d \<noteq> []" using False by (simp add: strip_def)
  then have h: "\<not> isspace (hd ?d)" by (rule hd_dropWhile)
  have "last (strip txt) = hd ?d" using d by (simp add: strip_def last_rev)
  with h have l: "\<not> isspace (last (strip txt))" by simp
  have rne: "?rest \<noteq> []"
  proof
    assume a: "?rest = []"
    have "?d = []" unfolding a by simp
    with d show False by simp
  qed
  then have hr: "\<not> isspace (hd ?rest)" by (rule hd_dropWhile)
  obtain post where r: "?rest = strip txt @ post"
  proof -
    have "?rest = rev (takeWhile isspace (rev ?rest) @ ?d)"
      by (simp only: takeWhile_dropWhile_id rev_rev_ident)
    then have "?rest = strip txt @ rev (takeWhile isspace (rev ?rest))"
      by (simp only: rev_append strip_def)
    then show ?thesis using that by blast
  qed
  have "hd ?rest = hd (strip txt)" using False by (subst r) simp
  with hr l show ?thesis by simp
qed

subsection \<open>C1: a successful advisory call\<close>

lemma hd_filter_keep: "xs \<noteq> [] \<Longrightarrow> P (hd xs) \<Longrightarrow> hd (filter P xs) = hd xs \<and> filter P xs \<noteq> []"
  by (cases xs) simp_all

lemma last_filter_keep: "xs \<noteq> [] \<Longrightarrow> P (last xs) \<Longrightarrow> last (filter P xs) = last xs"
proof -
  assume ne: "xs \<noteq> []" and p: "P (last xs)"
  from ne have "xs = butlast xs @ [last xs]" by simp
  then have "filter P xs = filter P (butlast xs) @ filter P [last xs]"
    by (metis filter_append)
  with p show ?thesis by simp
qed

text \<open>
  C1, as stated, fails in what it says of the cleaned text. For the response "* Go *" the
  cue is " Go ": the whitespace is stripped before the asterisks are removed, so the
  blanks next to them stay, and the status and the speech engine get a text with
  whitespace around it. For the response "_Stop._" the cue is "_Stop._": the asterisk is
  the only markup character removed.
\<close>
theorem cue_keeps_whitespace_and_underscores_counterexample:
  "remove_char asterisk (strip (lit ''* Go *'')) = lit '' Go ''
   \<and> isspace (hd (lit '' Go '')) \<and> isspace (last (lit '' Go ''))
   \<and> remove_char asterisk (strip (lit ''_Stop._'')) = lit ''_Stop._''
   \<and> after_status (run_gemini_assistant 10 10 (ResponseText (lit ''* Go *'')) Spoken
         (start_navigation True Spoken (Some [1, 2, 3]) init_app))
       = [lit ''Activating systems...'', lit ''Analyzing scene...'', lit ''AI Cue:  Go '']
   \<and> said WorkerThread (trace (run_gemini_assistant 10 10 (ResponseText (lit ''* Go *'')) Spoken
         (start_navigation True Spoken (Some [1, 2, 3]) init_app)))
       = [lit '' Go '']
   \<and> said WorkerThread (trace (run_gemini_assistant 10 10 (ResponseText (lit ''_Stop._'')) Spoken
         (start_navigation True Spoken (Some [1, 2, 3]) init_app)))
       = [lit ''_Stop._'']"
proof -
  let ?s = "start_navigation True Spoken (Some [1, 2, 3]) init_app"
  have c: "remove_char asterisk (strip (lit ''* Go *'')) = lit '' Go ''"
    "remove_char asterisk (strip (lit ''_Stop._'')) = lit ''_Stop._''"
    by (simp_all add: remove_char_def strip_def isspace_def lit_def asterisk_def)
  have w: "isspace (hd (lit '' Go ''))" "isspace (last (lit '' Go ''))"
    by (simp_all add: isspace_def lit_def)
  have l: "lit ''AI Cue: '' @ lit '' Go '' = lit ''AI Cue:  Go ''"
    by (simp add: lit_def)
  have "after_status (run_gemini_assistant 10 10 (ResponseText (lit ''* Go *'')) Spoken ?s)
       = [lit ''Activating systems...'', lit ''Analyzing scene...'', lit ''AI Cue:  Go '']"
    by (simp add: worker_sel start_sel init_app_def c l)
  moreover have "said WorkerThread (trace (run_gemini_assistant 10 10 (ResponseText (lit ''* Go *'')) Spoken ?s))
       = [lit '' Go '']"
    by (simp add: worker_trace worker_sel start_sel start_trace init_app_def trace_simps c)
  moreover have "said WorkerThread (trace (run_gemini_assistant 10 10 (ResponseText (lit ''_Stop._'')) Spoken ?s))
       = [lit ''_Stop._'']"
    by (simp add: worker_trace worker_sel start_sel start_trace init_app_def trace_simps c)
  ultimately show ?thesis using c w by blast
qed

text \<open>
  C1, as amended. A pass of the advisory loop that sends a request and gets the text \<open>txt\<close> back
  (any Python string) computes the cue in two steps, in this order: it strips the
  whitespace around \<open>txt\<close> (what is removed is whitespace only, and what is left, here
  \<open>stripped\<close>, neither starts nor ends with whitespace), and then it removes every
  asterisk, and nothing else, from \<open>stripped\<close>. The cue holds no asterisk; when
  \<open>stripped\<close> neither starts nor ends with an asterisk, the cue neither starts nor ends
  with whitespace. The pass schedules the status "Analyzing scene..." and then "AI Cue: "
  followed by the cue; once the user-interface thread has run the scheduled callbacks the
  status label shows exactly "AI Cue: " followed by the cue. The speech engine is handed
  exactly the cue, by the worker thread, and nothing else is spoken. For the response
  "Clear path ahead. Walk forward." the cue is that very string.
\<close>
theorem advisory_success_cue:
  assumes "is_running s" and "0 < workers s" and "latest_frame s = Some fr"
    and "4 < t1 - last_spoken_time s"
  shows "let stripped = strip txt;
             advice = remove_char asterisk stripped;
             s' = run_gemini_assistant t1 t2 (ResponseText txt) tts s in
           (\<exists>pre post. txt = pre @ stripped @ post \<and> list_all isspace pre \<and> list_all isspace post)
         \<and> (stripped = [] \<or> (\<not> isspace (hd stripped) \<and> \<not> isspace (last stripped)))
         \<and> advice = filter (\<lambda>c. c \<noteq> asterisk) stripped
         \<and> asterisk \<notin> set advice
         \<and> (stripped \<noteq> [] \<and> hd stripped \<noteq> asterisk \<and> last stripped \<noteq> asterisk \<longrightarrow>
              advice \<noteq> [] \<and> \<not> isspace (hd advice) \<and> \<not> isspace (last advice))
         \<and> after_status s' = after_status s @ [lit ''Analyzing scene...'', lit ''AI Cue: '' @ advice]
         \<and> ai_status_label (exec (replicate (length (after_status s')) ShowStatus) s')
             = lit ''AI Cue: '' @ advice
         \<and> said WorkerThread (trace s') = said WorkerThread (trace s) @ [advice]
         \<and> said UiThread (trace s') = said UiThread (trace s)
         \<and> requests (trace s') = requests (trace s) @ [(t2, fr)]
         \<and> (txt = lit ''Clear path ahead. Walk forward.'' \<longrightarrow>
              advice = lit ''Clear path ahead. Walk forward.'')"
proof -
  define stripped where "stripped = strip txt"
  define advice where "advice = remove_char asterisk stripped"
  define s' where "s' = run_gemini_assistant t1 t2 (ResponseText txt) tts s"
  have q: "after_status s' = after_status s @ [lit ''Analyzing scene...'', lit ''AI Cue: '' @ advice]"
    using assms unfolding s'_def advice_def stripped_def by (simp add: worker_sel)
  have tr: "said WorkerThread (trace s') = said WorkerThread (trace s) @ [advice]"
      "said UiThread (trace s') = said UiThread (trace s)"
    using assms unfolding s'_def advice_def stripped_def
    by (simp_all add: worker_trace trace_simps split: tts_result.splits)
  have rq: "requests (trace s') = requests (trace s) @ [(t2, fr)]"
    using assms unfolding s'_def by (simp add: worker_requests)
  have "ai_status_label (exec (replicate (length (after_status s')) ShowStatus) s')
          = last (after_status s')"
    by (rule show_all) (simp_all add: q)
  then have l: "ai_status_label (exec (replicate (length (after_status s')) ShowStatus) s')
          = lit ''AI Cue: '' @ advice"
    by (simp add: q)
  have star: "asterisk \<notin> set advice" "advice = filter (\<lambda>c. c \<noteq> asterisk) stripped"
    by (simp_all add: advice_def remove_char_def)
  have example: "txt = lit ''Clear path ahead. Walk forward.'' \<longrightarrow>
      advice = lit ''Clear path ahead. Walk forward.''"
    by (simp add: advice_def stripped_def remove_char_def strip_def isspace_def lit_def asterisk_def)
  have dec: "\<exists>pre post. txt = pre @ stripped @ post \<and> list_all isspace pre \<and> list_all isspace post"
    unfolding stripped_def by (rule strip_decomp)
  have ends: "stripped = [] \<or> (\<not> isspace (hd stripped) \<and> \<not> isspace (last stripped))"
    unfolding stripped_def by (rule strip_ends)
  have cue_ends: "stripped \<noteq> [] \<and> hd stripped \<noteq> asterisk \<and> last stripped \<noteq> asterisk \<longrightarrow>
              advice \<noteq> [] \<and> \<not> isspace (hd advice) \<and> \<not> isspace (last advice)"
  proof
    assume a: "stripped \<noteq> [] \<and> hd stripped \<noteq> asterisk \<and> last stripped \<noteq> asterisk"
    then have h: "hd advice = hd stripped \<and> advice \<noteq> []"
      unfolding star(2) by (intro hd_filter_keep) simp_all
    from a have la: "last advice = last stripped"
      unfolding star(2) by (intro last_filter_keep) simp_all
    from a ends have "\<not> isspace (hd stripped) \<and> \<not> isspace (last stripped)" by simp
    with h la show "advice \<noteq> [] \<and> \<not> isspace (hd advice) \<and> \<not> isspace (last advice)" by simp
  qed
  from q tr rq l star example dec ends cue_ends show ?thesis
    unfolding Let_def stripped_def[symmetric] advice_def[symmetric] s'_def[symmetric] by blast
qed

theorem advisory_success_cue_witness:
  "let s = start_navigation True Spoken (Some [1, 2, 3]) init_app;
       s1 = run_gemini_assistant 10 10 (ResponseText (lit ''Clear path ahead. Walk forward.'')) Spoken s;
       s2 = run_gemini_assistant 10 10
              (ResponseText (12288 # 32 # lit ''**Chair at 2 o'' @ 8217 # lit ''clock.** '' @ [8232, 10]))
              Spoken s;
       s3 = run_gemini_assistant 10 10 (ResponseText (lit ''* Go *'')) Spoken s in
     is_running s \<and> 0 < workers s \<and> latest_frame s = Some [1, 2, 3]
   \<and> 4 < 10 - last_spoken_time s
   \<and> strip (lit ''Clear path ahead. Walk forward.'') \<noteq> []
   \<and> hd (strip (lit ''Clear path ahead. Walk forward.'')) \<noteq> asterisk
   \<and> last (strip (lit ''Clear path ahead. Walk forward.'')) \<noteq> asterisk
   \<and> ai_status_label (exec (replicate (length (after_status s1)) ShowStatus) s1)
       = lit ''AI Cue: Clear path ahead. Walk forward.''
   \<and> said WorkerThread (trace s1) = [lit ''Clear path ahead. Walk forward.'']
   \<and> said WorkerThread (trace s2) = [lit ''Chair at 2 o'' @ 8217 # lit ''clock.'']
   \<and> after_status s2 = [lit ''Activating systems...'', lit ''Analyzing scene...'',
        lit ''AI Cue: Chair at 2 o'' @ 8217 # lit ''clock.'']
   \<and> said WorkerThread (trace s3) = [lit '' Go '']
   \<and> after_status s3 = [lit ''Activating systems...'', lit ''Analyzing scene...'',
        lit ''AI Cue:  Go '']"
proof -
  let ?s = "start_navigation True Spoken (Some [1, 2, 3]) init_app"
  have h: "is_running ?s" "0 < workers ?s" "latest_frame ?s = Some [1, 2, 3]"
    "4 < 10 - last_spoken_time ?s"
    by (simp_all add: start_sel init_app_def)
  have st: "after_status ?s = [lit ''Activating systems...'']" "said WorkerThread (trace ?s) = []"
    by (simp_all add: start_sel start_trace trace_simps init_app_def)
  have c1: "remove_char asterisk (lit ''Clear path ahead. Walk forward.'')
      = lit ''Clear path ahead. Walk forward.''"
    "strip (lit ''Clear path ahead. Walk forward.'') = lit ''Clear path ahead. Walk forward.''"
    by (simp_all add: remove_char_def strip_def isspace_def lit_def asterisk_def)
  have c2: "remove_char asterisk
       (strip (12288 # 32 # lit ''**Chair at 2 o'' @ 8217 # lit ''clock.** '' @ [8232, 10]))
      = lit ''Chair at 2 o'' @ 8217 # lit ''clock.''"
    by (simp add: remove_char_def strip_def isspace_def lit_def asterisk_def)
  have c3: "remove_char asterisk (strip (lit ''* Go *'')) = lit '' Go ''"
    by (simp add: remove_char_def strip_def isspace_def lit_def asterisk_def)
  have l: "lit ''AI Cue: '' @ lit ''Clear path ahead. Walk forward.''
      = lit ''AI Cue: Clear path ahead. Walk forward.''"
    "lit ''AI Cue: '' @ lit ''Chair at 2 o'' @ 8217 # lit ''clock.''
      = lit ''AI Cue: Chair at 2 o'' @ 8217 # lit ''clock.''"
    "lit ''AI Cue: '' @ lit '' Go '' = lit ''AI Cue:  Go ''"
    by (simp_all add: lit_def)
  have e: "hd (lit ''Clear path ahead. Walk forward.'') \<noteq> asterisk"
    "last (lit ''Clear path ahead. Walk forward.'') \<noteq> asterisk"
    "lit ''Clear path ahead. Walk forward.'' \<noteq> []"
    by (simp_all add: lit_def asterisk_def)
  let ?t2 = "12288 # 32 # lit ''**Chair at 2 o'' @ 8217 # lit ''clock.** '' @ [8232, 10]"
  let ?s1 = "run_gemini_assistant 10 10 (ResponseText (lit ''Clear path ahead. Walk forward.'')) Spoken ?s"
  let ?s2 = "run_gemini_assistant 10 10 (ResponseText ?t2) Spoken ?s"
  let ?s3 = "run_gemini_assistant 10 10 (ResponseText (lit ''* Go *'')) Spoken ?s"
  from advisory_success_cue[OF h, of "lit ''Clear path ahead. Walk forward.''" 10 Spoken]
  have "ai_status_label (exec (replicate (length (after_status ?s1)) ShowStatus) ?s1)
          = lit ''AI Cue: '' @ remove_char asterisk (strip (lit ''Clear path ahead. Walk forward.''))
        \<and> said WorkerThread (trace ?s1) = said WorkerThread (trace ?s)
            @ [remove_char asterisk (strip (lit ''Clear path ahead. Walk forward.''))]"
    unfolding Let_def by blast
  then have r1: "ai_status_label (exec (replicate (length (after_status ?s1)) ShowStatus) ?s1)
          = lit ''AI Cue: Clear path ahead. Walk forward.''"
      "said WorkerThread (trace ?s1) = [lit ''Clear path ahead. Walk forward.'']"
    unfolding c1 st l by simp_all
  from advisory_success_cue[OF h, of ?t2 10 Spoken]
  have "after_status ?s2 = after_status ?s
            @ [lit ''Analyzing scene...'', lit ''AI Cue: '' @ remove_char asterisk (strip ?t2)]
        \<and> said WorkerThread (trace ?s2) = said WorkerThread (trace ?s)
            @ [remove_char asterisk (strip ?t2)]"
    unfolding Let_def by blast
  then have r2: "after_status ?s2 = [lit ''Activating systems...'', lit ''Analyzing scene...'',
        lit ''AI Cue: Chair at 2 o'' @ 8217 # lit ''clock.'']"
      "said WorkerThread (trace ?s2) = [lit ''Chair at 2 o'' @ 8217 # lit ''clock.'']"
    unfolding c2 st l by simp_all
  from advisory_success_cue[OF h, of "lit ''* Go *''" 10 Spoken]
  have "after_status ?s3 = after_status ?s
            @ [lit ''Analyzing scene...'', lit ''AI Cue: '' @ remove_char asterisk (strip (lit ''* Go *''))]
        \<and> said WorkerThread (trace ?s3) = said WorkerThread (trace ?s)
            @ [remove_char asterisk (strip (lit ''* Go *''))]"
    unfolding Let_def by blast
  then have r3: "after_status ?s3 = [lit ''Activating systems...'', lit ''Analyzing scene...'',
        lit ''AI Cue:  Go '']"
      "said WorkerThread (trace ?s3) = [lit '' Go '']"
    unfolding c3 st l by simp_all
  from h e r1 r2 r3 show ?thesis unfolding Let_def c1 by blast
qed

subsection \<open>C2: spacing of the advisory requests\<close>

lemma test_requests: "requests (trace (worker_test t1 s)) = requests (trace s)"
  by (simp add: test_trace trace_simps)

lemma wdispatch_requests:
  "requests (trace (worker_dispatch t2 res tts s)) =
     requests (trace s) @
       (if 0 < passed s then (case latest_frame s of Some fr \<Rightarrow> [(t2, fr)] | None \<Rightarrow> []) else [])"
  by (simp add: wdispatch_trace dispatch_trace trace_simps
      split: option.splits advisory_result.splits tts_result.splits)

lemma spaced_snoc: "spaced (xs @ [t]) = (spaced xs \<and> (xs = [] \<or> 4 < t - last xs))"
  by (induction xs rule: spaced.induct) auto

lemma stamped_later: "stamped now s \<Longrightarrow> now \<le> now' \<Longrightarrow> stamped now' s"
  by (auto simp: stamped_def)

lemma stamped_step:
  assumes st: "stamped now s" and one: "workers s + passed s \<le> 1"
    and srt: "sorted (now # readings [e])"
  shows "stamped (last (now # readings [e])) (step e s)"
proof (cases e)
  case (Start opened tts rd)
  then show ?thesis using st by (auto simp: stamped_def start_requests start_sel)
next
  case (Stop tts)
  then show ?thesis using st by (simp add: stamped_def stop_requests stop_sel)
next
  case (Tick rd)
  show ?thesis using st unfolding Tick stamped_def tick_requests step_sel by auto
next
  case ShowStatus
  show ?thesis using st unfolding ShowStatus stamped_def step_sel by simp
next
  case (Worker t1 t2 res tts)
  with srt have le: "now \<le> t1" "t1 \<le> t2" by simp_all
  show ?thesis
  proof (cases "0 < workers s")
    case True
    with one have "passed s = 0" by simp
    with st le True show ?thesis unfolding Worker
      by (auto simp: stamped_def worker_requests worker_sel spaced_snoc split: option.splits)
  next
    case False
    then have "step e s = s" unfolding Worker by (simp add: run_gemini_assistant_def)
    moreover from le have "now \<le> t2" by simp
    ultimately show ?thesis using stamped_later[OF st] unfolding Worker by simp
  qed
next
  case (Test t1)
  with srt have le: "now \<le> t1" by simp
  show ?thesis
  proof (cases "0 < workers s")
    case True
    with one have "passed s = 0" by simp
    with st le True show ?thesis unfolding Test
      by (auto simp: stamped_def test_requests test_sel loop_test_def)
  next
    case False
    then have "step e s = s" unfolding Test by (simp add: worker_test_def)
    then show ?thesis using stamped_later[OF st le] unfolding Test by simp
  qed
next
  case (Dispatch t2 res tts)
  with srt have le: "now \<le> t2" by simp
  show ?thesis
  proof (cases "0 < passed s")
    case True
    with one have p: "passed s = 1" by simp
    from st True have f: "latest_frame s \<noteq> None" "4 < now - last_spoken_time s"
      by (simp_all add: stamped_def)
    with st le p show ?thesis unfolding Dispatch
      by (auto simp: stamped_def wdispatch_requests wdispatch_sel spaced_snoc)
  next
    case False
    then have "step e s = s" unfolding Dispatch by (simp add: worker_dispatch_def)
    then show ?thesis using stamped_later[OF st le] unfolding Dispatch by simp
  qed
qed

lemma readings_Cons: "readings (e # es) = readings [e] @ readings es"
  by (cases e) simp_all

lemma stamped_exec:
  "stamped now s \<Longrightarrow> solo es s \<Longrightarrow> sorted (now # readings es) \<Longrightarrow>
   \<exists>now'. stamped now' (exec es s)"
proof (induction es arbitrary: s now)
  case Nil
  then show ?case by auto
next
  case (Cons e es)
  let ?now = "last (now # readings [e])"
  from Cons.prems(2) have one: "workers s + passed s \<le> 1" and so: "solo es (step e s)"
    by simp_all
  have srt: "sorted ((now # readings [e]) @ readings es)"
    using Cons.prems(3) readings_Cons[of e es] by simp
  then have s1: "sorted (now # readings [e])" by (simp only: sorted_append)
  have s2: "sorted (?now # readings es)"
  proof -
    from srt have a: "sorted (readings es)"
      and b: "\<forall>x\<in>set (now # readings [e]). \<forall>y\<in>set (readings es). x \<le> y"
      by (simp_all only: sorted_append) blast+
    have "?now \<in> set (now # readings [e])" by (rule last_in_set) simp
    with b have "\<forall>y\<in>set (readings es). ?now \<le> y" by blast
    with a show ?thesis by simp
  qed
  from stamped_step[OF Cons.prems(1) one s1] have "stamped ?now (step e s)" .
  from Cons.IH[OF this so s2] show ?case by simp
qed

lemma stamped_init: "stamped now init_app"
  by (simp add: stamped_def init_app_def trace_simps)

lemma one_worker_requests_spaced:
  assumes "solo evs init_app" and "sorted (readings evs)"
  shows "spaced (map fst (requests (trace (exec evs init_app))))"
proof -
  obtain now where "sorted (now # readings evs)"
  proof (cases "readings evs")
    case Nil
    then have "sorted ((0::real) # readings evs)" by simp
    then show ?thesis by (rule that)
  next
    case (Cons r rs)
    with assms(2) have "sorted (r # readings evs)" by simp
    then show ?thesis by (rule that)
  qed
  from stamped_exec[OF stamped_init assms(1) this]
  obtain now' where "stamped now' (exec evs init_app)" by blast
  then show ?thesis by (simp add: stamped_def)
qed

lemma one_worker_example:
  "solo [Start True Spoken (Some [7]), Test 10, Tick (Some [8]),
         Dispatch (21 / 2) (Raised (lit ''timeout'')) Spoken, Stop Spoken, Test 11,
         Start True Spoken None, Worker 20 20 (ResponseText (lit ''Go.'')) Spoken] init_app
   \<and> sorted (readings [Start True Spoken (Some [7]), Test 10, Tick (Some [8]),
         Dispatch (21 / 2) (Raised (lit ''timeout'')) Spoken, Stop Spoken, Test 11,
         Start True Spoken None, Worker 20 20 (ResponseText (lit ''Go.'')) Spoken])
   \<and> requests (trace (exec [Start True Spoken (Some [7]), Test 10, Tick (Some [8]),
         Dispatch (21 / 2) (Raised (lit ''timeout'')) Spoken, Stop Spoken, Test 11,
         Start True Spoken None, Worker 20 20 (ResponseText (lit ''Go.'')) Spoken] init_app))
       = [(21 / 2, [8]), (20, [8])]
   \<and> spaced (map fst (requests (trace (exec [Start True Spoken (Some [7]), Test 10, Tick (Some [8]),
         Dispatch (21 / 2) (Raised (lit ''timeout'')) Spoken, Stop Spoken, Test 11,
         Start True Spoken None, Worker 20 20 (ResponseText (lit ''Go.'')) Spoken] init_app))))"
proof -
  let ?evs = "[Start True Spoken (Some [7]), Test 10, Tick (Some [8]),
         Dispatch (21 / 2) (Raised (lit ''timeout'')) Spoken, Stop Spoken, Test 11,
         Start True Spoken None, Worker 20 20 (ResponseText (lit ''Go.'')) Spoken]"
  have so: "solo ?evs init_app"
    by (simp add: start_sel stop_sel worker_sel test_sel wdispatch_sel step_sel update_frame_sel
        loop_test_def init_app_def)
  have srt: "sorted (readings ?evs)" by simp
  have rq: "requests (trace (exec ?evs init_app)) = [(21 / 2, [8]), (20, [8])]"
    by (simp add: start_sel stop_sel worker_sel test_sel wdispatch_sel step_sel update_frame_sel
        loop_test_def start_requests stop_requests worker_requests test_requests
        wdispatch_requests tick_requests init_app_def trace_simps)
  from one_worker_requests_spaced[OF so srt] so srt rq show ?thesis by blast
qed

text \<open>
  C2 fails in the code when two worker threads are in their loops. The first session
  sends a request at time 10; Stop and then Start follow before its thread is back at the
  head of the loop, so that thread finds \<open>is_running\<close> true again and stays, and the
  second Start has created a second thread. When both threads evaluate the test of line
  183 (at 18.02 and 18.0201) before either runs line 184, both find it true, and the two
  requests are dispatched at 18.03 and 18.031: one millisecond apart, with a clock that
  never runs backwards. With one worker thread at a time the requests are spaced
  (\<open>one_worker_requests_spaced\<close>).
\<close>
theorem two_workers_dispatch_together:
  "sorted (readings
     [Start True Spoken (Some [7]), Worker 10 10 (ResponseText (lit ''Go.'')) Spoken, Stop Spoken,
      Start True Spoken None, Test (901 / 50), Test (180201 / 10000),
      Dispatch (1803 / 100) (ResponseText (lit ''Go.'')) Spoken,
      Dispatch (18031 / 1000) (ResponseText (lit ''Go.'')) Spoken])
   \<and> workers (exec [Start True Spoken (Some [7]), Worker 10 10 (ResponseText (lit ''Go.'')) Spoken,
        Stop Spoken, Start True Spoken None] init_app) = 2
   \<and> requests (trace (exec
     [Start True Spoken (Some [7]), Worker 10 10 (ResponseText (lit ''Go.'')) Spoken, Stop Spoken,
      Start True Spoken None, Test (901 / 50), Test (180201 / 10000),
      Dispatch (1803 / 100) (ResponseText (lit ''Go.'')) Spoken,
      Dispatch (18031 / 1000) (ResponseText (lit ''Go.'')) Spoken] init_app))
     = [(10, [7]), (1803 / 100, [7]), (18031 / 1000, [7])]
   \<and> \<not> spaced [10, 1803 / 100, 18031 / 1000]"
  by (simp add: start_sel stop_sel worker_sel test_sel wdispatch_sel loop_test_def
      start_requests stop_requests worker_requests test_requests wdispatch_requests
      init_app_def trace_simps)

subsection \<open>C3: what Stop resets\<close>

text \<open>
  C3, as stated, fails. After a session that captured the frame \<open>[1, 2, 3]\<close> and sent a
  request at time 10, Stop leaves \<open>latest_frame\<close> and \<open>last_spoken_time\<close> as the session
  left them, not as \<open>__init__\<close> set them; and the next Start (whose first camera read
  fails) begins with that frame and that time.
\<close>
theorem state_survives_stop_counterexample:
  "latest_frame (exec [Start True Spoken (Some [1, 2, 3]),
       Worker 10 10 (ResponseText (lit ''Stairs ahead. Stop.'')) Spoken, Stop Spoken] init_app)
     \<noteq> latest_frame init_app
   \<and> last_spoken_time (exec [Start True Spoken (Some [1, 2, 3]),
       Worker 10 10 (ResponseText (lit ''Stairs ahead. Stop.'')) Spoken, Stop Spoken] init_app)
     \<noteq> last_spoken_time init_app
   \<and> latest_frame (exec [Start True Spoken (Some [1, 2, 3]),
       Worker 10 10 (ResponseText (lit ''Stairs ahead. Stop.'')) Spoken, Stop Spoken,
       Start True Spoken None] init_app) = Some [1, 2, 3]
   \<and> last_spoken_time (exec [Start True Spoken (Some [1, 2, 3]),
       Worker 10 10 (ResponseText (lit ''Stairs ahead. Stop.'')) Spoken, Stop Spoken,
       Start True Spoken None] init_app) = 10"
  by (simp add: start_sel stop_sel worker_sel init_app_def)

text \<open>
  C3, as amended. Stop always leaves \<open>is_running\<close> false, and when a session was running
  it empties the camera handle and the video label and puts the two buttons back; it
  writes neither \<open>latest_frame\<close>, nor \<open>last_spoken_time\<close>, nor \<open>ai_thread\<close>. Start
  does not write \<open>last_spoken_time\<close> either, and it changes \<open>latest_frame\<close> only through
  its first camera read, when that read succeeds.
\<close>
theorem stop_resets_running_and_camera_only:
  "\<not> is_running (stop_navigation tts s)
   \<and> latest_frame (stop_navigation tts s) = latest_frame s
   \<and> last_spoken_time (stop_navigation tts s) = last_spoken_time s
   \<and> ai_thread (stop_navigation tts s) = ai_thread s
   \<and> (is_running s \<longrightarrow>
        cap (stop_navigation tts s) = None \<and> video_label (stop_navigation tts s) = None
        \<and> btn_start (stop_navigation tts s) = NORMAL \<and> btn_stop (stop_navigation tts s) = DISABLED)
   \<and> last_spoken_time (start_navigation opened tts' rd s) = last_spoken_time s
   \<and> latest_frame (start_navigation opened tts' rd s) =
        (if \<not> is_running s \<and> opened \<and> rd \<noteq> None then rd else latest_frame s)"
  by (simp add: start_sel stop_sel)

theorem stop_resets_running_and_camera_only_witness:
  "is_running (start_navigation True Spoken (Some [1, 2, 3]) init_app)
   \<and> cap (stop_navigation Spoken (start_navigation True Spoken (Some [1, 2, 3]) init_app)) = None
   \<and> latest_frame (stop_navigation Spoken (start_navigation True Spoken (Some [1, 2, 3]) init_app))
       = Some [1, 2, 3]"
  using stop_resets_running_and_camera_only[of Spoken
      "start_navigation True Spoken (Some [1, 2, 3]) init_app" True Spoken None]
  by (simp add: start_sel init_app_def)

subsection \<open>C4: Stop twice\<close>

lemma no_stop_Cons: "no_stop (e # es) = (no_stop [e] \<and> no_stop es)"
  by (cases e) auto

lemma running_step:
  assumes "is_running s" and "cap s \<noteq> None" and "no_stop [e]"
  shows "is_running (step e s) \<and> cap (step e s) \<noteq> None
         \<and> releases (trace (step e s)) = releases (trace s)"
proof (cases e)
  case (Start opened tts rd)
  then show ?thesis using assms by (simp add: start_sel start_trace)
next
  case (Stop tts)
  then show ?thesis using assms by simp
next
  case (Tick rd)
  show ?thesis using assms unfolding Tick step_sel tick_trace by (simp add: trace_simps)
next
  case ShowStatus
  show ?thesis using assms unfolding ShowStatus step_sel by simp
next
  case (Worker t1 t2 res tts)
  then show ?thesis using assms
    by (simp add: worker_sel worker_trace trace_simps
        split: option.splits advisory_result.splits tts_result.splits)
next
  case (Test t1)
  then show ?thesis using assms by (simp add: test_sel test_trace trace_simps)
next
  case (Dispatch t2 res tts)
  then show ?thesis using assms
    by (simp add: wdispatch_sel wdispatch_trace dispatch_trace trace_simps
        split: option.splits advisory_result.splits tts_result.splits)
qed

lemma running_exec:
  "is_running s \<Longrightarrow> cap s \<noteq> None \<Longrightarrow> no_stop es \<Longrightarrow>
   is_running (exec es s) \<and> cap (exec es s) \<noteq> None
   \<and> releases (trace (exec es s)) = releases (trace s)"
proof (induction es arbitrary: s)
  case Nil
  then show ?case by simp
next
  case (Cons e es)
  from Cons.prems(3) have ns: "no_stop [e]" "no_stop es" using no_stop_Cons by blast+
  from running_step[OF Cons.prems(1,2) ns(1)]
  have st: "is_running (step e s)" "cap (step e s) \<noteq> None"
    "releases (trace (step e s)) = releases (trace s)" by simp_all
  from Cons.IH[OF st(1,2) ns(2)] st(3) show ?case by simp
qed

text \<open>
  C4. Calling Stop a second time changes nothing: the second call returns at its first
  line. A session begun by a successful Start and followed by any schedule without Stop
  (ticks that read or fail to read, worker passes, further Start calls) is still running,
  has released nothing, and its Stop releases the camera exactly once; a second Stop
  releases nothing more.
\<close>
theorem stop_idempotent_release_once:
  "stop_navigation t2 (stop_navigation t1 s) = stop_navigation t1 s
   \<and> (\<not> is_running s0 \<and> no_stop evs \<longrightarrow>
        (let s1 = exec evs (start_navigation True tts rd s0) in
           is_running s1
         \<and> releases (trace s1) = releases (trace s0)
         \<and> releases (trace (stop_navigation t1 s1)) = Suc (releases (trace s0))
         \<and> releases (trace (stop_navigation t2 (stop_navigation t1 s1))) = Suc (releases (trace s0))
         \<and> cap (stop_navigation t1 s1) = None))"
proof (intro conjI impI)
  have "\<not> is_running (stop_navigation t1 s)" by (simp add: stop_sel)
  then show "stop_navigation t2 (stop_navigation t1 s) = stop_navigation t1 s"
    by (simp add: stop_navigation_def[of t2])
next
  assume a: "\<not> is_running s0 \<and> no_stop evs"
  define s1 where "s1 = exec evs (start_navigation True tts rd s0)"
  let ?st = "start_navigation True tts rd s0"
  have st: "is_running ?st" "cap ?st \<noteq> None" "releases (trace ?st) = releases (trace s0)"
    using a by (simp_all add: start_sel start_trace trace_simps split: tts_result.splits)
  from running_exec[OF st(1,2)] a
  have r: "is_running s1" "cap s1 \<noteq> None" "releases (trace s1) = releases (trace s0)"
    using st(3) by (simp_all add: s1_def)
  have one: "releases (trace (stop_navigation t1 s1)) = Suc (releases (trace s0))"
    using r by (simp add: stop_trace trace_simps split: tts_result.splits)
  have "stop_navigation t2 (stop_navigation t1 s1) = stop_navigation t1 s1"
    by (simp add: stop_navigation_def[of t2] stop_sel)
  with one have two: "releases (trace (stop_navigation t2 (stop_navigation t1 s1))) = Suc (releases (trace s0))"
    by simp
  have c: "cap (stop_navigation t1 s1) = None" using r by (simp add: stop_sel)
  from r one two c show "let s1 = exec evs (start_navigation True tts rd s0) in
           is_running s1
         \<and> releases (trace s1) = releases (trace s0)
         \<and> releases (trace (stop_navigation t1 s1)) = Suc (releases (trace s0))
         \<and> releases (trace (stop_navigation t2 (stop_navigation t1 s1))) = Suc (releases (trace s0))
         \<and> cap (stop_navigation t1 s1) = None"
    unfolding Let_def s1_def[symmetric] by simp
qed

theorem stop_idempotent_release_once_witness:
  "\<not> is_running init_app
   \<and> no_stop [Tick (Some [4]), Tick None, Worker 10 10 (ResponseText (lit ''Go.'')) Spoken, Tick (Some [5])]
   \<and> releases (trace (stop_navigation Spoken (stop_navigation Spoken
        (exec [Tick (Some [4]), Tick None, Worker 10 10 (ResponseText (lit ''Go.'')) Spoken, Tick (Some [5])]
           (start_navigation True Spoken (Some [3]) init_app))))) = 1"
proof -
  let ?evs = "[Tick (Some [4]), Tick None, Worker 10 10 (ResponseText (lit ''Go.'')) Spoken, Tick (Some [5])]"
  have h: "\<not> is_running init_app \<and> no_stop ?evs" by (simp add: init_app_def)
  have "releases (trace init_app) = 0" by (simp add: init_app_def trace_simps)
  with h stop_idempotent_release_once[where ?s0.0 = init_app and evs = ?evs
      and tts = Spoken and rd = "Some [3]" and ?t1.0 = Spoken and ?t2.0 = Spoken]
  show ?thesis unfolding Let_def by simp
qed

subsection \<open>C5: a failed advisory call\<close>



subsection \<open>C6: Start without a camera\<close>

text \<open>
  C6, as stated, fails in its last part. Start with no camera does change the state beyond
  the dialog: \<open>self.cap\<close> is assigned the capture object that failed to open.
\<close>
theorem start_without_camera_counterexample:
  "cap (start_navigation False Spoken None init_app) \<noteq> cap init_app
   \<and> start_navigation False Spoken None init_app
       \<noteq> init_app\<lparr>trace := trace (start_navigation False Spoken None init_app)\<rparr>"
proof -
  have c: "cap (start_navigation False Spoken None init_app) \<noteq> cap init_app"
    by (simp add: start_sel init_app_def)
  have "cap (init_app\<lparr>trace := trace (start_navigation False Spoken None init_app)\<rparr>) = cap init_app"
    by simp
  with c show ?thesis by metis
qed

text \<open>
  C6, as amended. When no session is running and the camera does not open, Start opens the
  capture, stores it in \<open>cap\<close>, shows the "Webcam Error" dialog and returns: \<open>is_running\<close>
  stays false, no thread is started, and no attribute other than \<open>cap\<close> changes.
\<close>
theorem start_without_camera:
  "\<not> is_running s \<longrightarrow>
     start_navigation False tts rd s =
       s\<lparr>cap := Some (VideoCapture False),
         trace := trace s @ [(UiThread, OpenCamera),
           (UiThread, ShowError (lit ''Webcam Error'')
             (lit ''Could not access the webcam. Please ensure it is connected and not in use by another application.''))]\<rparr>
     \<and> \<not> is_running (start_navigation False tts rd s)
     \<and> workers (start_navigation False tts rd s) = workers s
     \<and> ai_thread (start_navigation False tts rd s) = ai_thread s
     \<and> (UiThread, ThreadStart) \<notin> set (drop (length (trace s)) (trace (start_navigation False tts rd s)))"
  by (simp add: start_navigation_def Let_def log_def)

theorem start_without_camera_witness:
  "\<not> is_running init_app
   \<and> \<not> is_running (start_navigation False Spoken None init_app)
   \<and> workers (start_navigation False Spoken None init_app) = 0
   \<and> trace (start_navigation False Spoken None init_app) =
       [(UiThread, OpenCamera),
        (UiThread, ShowError (lit ''Webcam Error'')
          (lit ''Could not access the webcam. Please ensure it is connected and not in use by another application.''))]"
  using start_without_camera[of init_app Spoken None]
  by (simp add: init_app_def)

subsection \<open>C7: the order of Stop\<close>

text \<open>
  C7, as stated, fails. In the calls Stop makes, the Start button is set to \<open>NORMAL\<close>
  before the camera is released, not after.
\<close>
theorem release_before_enable_counterexample:
  "trace (stop_navigation Spoken (start_navigation True Spoken None init_app)) =
     [(UiThread, OpenCamera), (UiThread, ConfigStart DISABLED), (UiThread, ConfigStop NORMAL),
      (UiThread, Say (lit ''Navigation system activated.'')), (UiThread, ThreadStart),
      (UiThread, ReadCamera),
      (UiThread, ConfigStart NORMAL), (UiThread, ConfigStop DISABLED), (UiThread, ReleaseCamera),
      (UiThread, Say (lit ''Navigation system shutting down.''))]
   \<and> \<not> before (UiThread, ReleaseCamera) (UiThread, ConfigStart NORMAL)
         (trace (stop_navigation Spoken (start_navigation True Spoken None init_app)))
   \<and> before (UiThread, ConfigStart NORMAL) (UiThread, ReleaseCamera)
         (trace (stop_navigation Spoken (start_navigation True Spoken None init_app)))"
  by (simp add: stop_trace start_trace start_sel init_app_def before_def)

text \<open>
  C7, as amended. Stop of a running session with an open camera first enables the Start
  button, then disables the Stop button, then releases the camera, then announces the
  shutdown, all in the one handler call on the user-interface thread; when the handler
  returns the camera handle is empty, Start is enabled and Stop is disabled.
\<close>
theorem stop_enables_then_releases:
  "is_running s \<and> cap s \<noteq> None \<longrightarrow>
     trace (stop_navigation tts s) =
       trace s @ [(UiThread, ConfigStart NORMAL), (UiThread, ConfigStop DISABLED),
                  (UiThread, ReleaseCamera), (UiThread, Say (lit ''Navigation system shutting down.''))]
         @ (case tts of Spoken \<Rightarrow> [] | EngineError e \<Rightarrow> [(UiThread, Print ((lit ''[TTS Error]: '') @ e))])
     \<and> before (UiThread, ConfigStart NORMAL) (UiThread, ReleaseCamera)
          (drop (length (trace s)) (trace (stop_navigation tts s)))
     \<and> cap (stop_navigation tts s) = None
     \<and> btn_start (stop_navigation tts s) = NORMAL
     \<and> btn_stop (stop_navigation tts s) = DISABLED
     \<and> \<not> is_running (stop_navigation tts s)"
  by (simp add: stop_trace stop_sel before_def)

theorem stop_enables_then_releases_witness:
  "is_running (start_navigation True Spoken None init_app)
   \<and> cap (start_navigation True Spoken None init_app) \<noteq> None
   \<and> before (UiThread, ConfigStart NORMAL) (UiThread, ReleaseCamera)
        (drop (length (trace (start_navigation True Spoken None init_app)))
           (trace (stop_navigation Spoken (start_navigation True Spoken None init_app))))
   \<and> cap (stop_navigation Spoken (start_navigation True Spoken None init_app)) = None
   \<and> btn_start (stop_navigation Spoken (start_navigation True Spoken None init_app)) = NORMAL"
proof -
  let ?s = "start_navigation True Spoken None init_app"
  have h: "is_running ?s \<and> cap ?s \<noteq> None" by (simp add: start_sel init_app_def)
  with stop_enables_then_releases[of ?s Spoken] show ?thesis by blast
qed

subsection \<open>C8: which thread speaks and which thread calls the remote model\<close>

text \<open>
  C8, as stated, fails. The Start handler and the Stop handler both call \<open>speak\<close>, and
  they run on the user-interface thread.
\<close>
theorem ui_thread_speaks_counterexample:
  "(UiThread, Say (lit ''Navigation system activated.''))
     \<in> set (trace (start_navigation True Spoken None init_app))
   \<and> (UiThread, Say (lit ''Navigation system shutting down.''))
     \<in> set (trace (stop_navigation Spoken (start_navigation True Spoken None init_app)))
   \<and> said UiThread (trace (exec [Start True Spoken None, Stop Spoken] init_app))
     = [(lit ''Navigation system activated.''), (lit ''Navigation system shutting down.'')]"
  by (simp add: stop_trace start_trace start_sel init_app_def trace_simps)

lemma ui_effect_step: "list_all ui_effect (trace s) \<Longrightarrow> list_all ui_effect (trace (step e s))"
proof (cases e)
  case (Start opened tts rd)
  assume "list_all ui_effect (trace s)"
  then show ?thesis unfolding Start by (simp add: start_trace split: tts_result.splits)
next
  case (Stop tts)
  assume "list_all ui_effect (trace s)"
  then show ?thesis unfolding Stop by (simp add: stop_trace split: tts_result.splits)
next
  case (Tick rd)
  assume "list_all ui_effect (trace s)"
  then show ?thesis unfolding Tick tick_trace by simp
next
  case ShowStatus
  assume "list_all ui_effect (trace s)"
  then show ?thesis unfolding ShowStatus step_sel by simp
next
  case (Worker t1 t2 res tts)
  assume "list_all ui_effect (trace s)"
  then show ?thesis unfolding Worker
    by (simp add: worker_trace split: option.splits advisory_result.splits tts_result.splits)
next
  case (Test t1)
  assume "list_all ui_effect (trace s)"
  then show ?thesis unfolding Test by (simp add: test_trace)
next
  case (Dispatch t2 res tts)
  assume "list_all ui_effect (trace s)"
  then show ?thesis unfolding Dispatch
    by (simp add: wdispatch_trace dispatch_trace
        split: option.splits advisory_result.splits tts_result.splits)
qed

lemma ui_effect_exec: "list_all ui_effect (trace s) \<Longrightarrow> list_all ui_effect (trace (exec es s))"
  by (induction es arbitrary: s) (simp_all add: ui_effect_step)

text \<open>
  C8, as amended. In every schedule the user-interface thread never sends a remote
  request, and the only texts it speaks are the two announcements "Navigation system
  activated." (once per successful Start) and "Navigation system shutting down." (once per
  Stop of a running session). The capture tick neither speaks nor sends a request, and the
  cues are spoken by the worker thread only.
\<close>
theorem ui_thread_effects:
  "list_all ui_effect (trace (exec evs init_app))
   \<and> said UiThread (trace (update_frame rd s)) = said UiThread (trace s)
   \<and> requests (trace (update_frame rd s)) = requests (trace s)
   \<and> requests (trace (start_navigation opened tts rd s)) = requests (trace s)
   \<and> requests (trace (stop_navigation tts s)) = requests (trace s)
   \<and> said UiThread (trace (start_navigation opened tts rd s)) =
        said UiThread (trace s)
          @ (if \<not> is_running s \<and> opened then [(lit ''Navigation system activated.'')] else [])
   \<and> said UiThread (trace (stop_navigation tts s)) =
        said UiThread (trace s)
          @ (if is_running s then [(lit ''Navigation system shutting down.'')] else [])
   \<and> said UiThread (trace (run_gemini_assistant t1 t2 res tts s)) = said UiThread (trace s)"
proof -
  have "list_all ui_effect (trace init_app)" by (simp add: init_app_def)
  then have 1: "list_all ui_effect (trace (exec evs init_app))" by (rule ui_effect_exec)
  have 2: "said UiThread (trace (update_frame rd s)) = said UiThread (trace s)"
    "requests (trace (update_frame rd s)) = requests (trace s)"
    by (simp_all add: update_frame_sel trace_simps)
  have 3: "said UiThread (trace (start_navigation opened tts rd s)) =
        said UiThread (trace s)
          @ (if \<not> is_running s \<and> opened then [(lit ''Navigation system activated.'')] else [])"
    by (simp add: start_trace trace_simps split: tts_result.splits)
  have 4: "said UiThread (trace (stop_navigation tts s)) =
        said UiThread (trace s)
          @ (if is_running s then [(lit ''Navigation system shutting down.'')] else [])"
    by (simp add: stop_trace trace_simps split: tts_result.splits)
  have 5: "said UiThread (trace (run_gemini_assistant t1 t2 res tts s)) = said UiThread (trace s)"
    by (simp add: worker_trace trace_simps
        split: option.splits advisory_result.splits tts_result.splits)
  from 1 2 3 4 5 show ?thesis by (simp add: start_requests stop_requests)
qed

theorem ui_thread_effects_witness:
  "list_all ui_effect (trace (exec [Start True Spoken (Some [7]), Tick (Some [8]),
       Worker 10 10 (ResponseText (lit ''Go.'')) Spoken, Stop Spoken] init_app))
   \<and> trace (exec [Start True Spoken (Some [7]), Tick (Some [8]),
       Worker 10 10 (ResponseText (lit ''Go.'')) Spoken, Stop Spoken] init_app) =
     [(UiThread, OpenCamera), (UiThread, ConfigStart DISABLED), (UiThread, ConfigStop NORMAL),
      (UiThread, Say (lit ''Navigation system activated.'')), (UiThread, ThreadStart),
      (UiThread, ReadCamera), (UiThread, ReadCamera),
      (WorkerThread, GenerateContent 10 [8]), (WorkerThread, Say (lit ''Go.'')), (WorkerThread, Sleep),
      (UiThread, ConfigStart NORMAL), (UiThread, ConfigStop DISABLED), (UiThread, ReleaseCamera),
      (UiThread, Say (lit ''Navigation system shutting down.''))]"
proof -
  let ?evs = "[Start True Spoken (Some [7]), Tick (Some [8]),
       Worker 10 10 (ResponseText (lit ''Go.'')) Spoken, Stop Spoken]"
  have "list_all ui_effect (trace (exec ?evs init_app))"
    using ui_thread_effects[of ?evs] by blast
  moreover have "trace (exec ?evs init_app) =
     [(UiThread, OpenCamera), (UiThread, ConfigStart DISABLED), (UiThread, ConfigStop NORMAL),
      (UiThread, Say (lit ''Navigation system activated.'')), (UiThread, ThreadStart),
      (UiThread, ReadCamera), (UiThread, ReadCamera),
      (WorkerThread, GenerateContent 10 [8]), (WorkerThread, Say (lit ''Go.'')), (WorkerThread, Sleep),
      (UiThread, ConfigStart NORMAL), (UiThread, ConfigStop DISABLED), (UiThread, ReleaseCamera),
      (UiThread, Say (lit ''Navigation system shutting down.''))]"
    by (simp add: stop_trace worker_trace worker_sel sels start_trace start_sel init_app_def
        strip_def remove_char_def isspace_def lit_def asterisk_def)
  ultimately show ?thesis by simp
qed

subsection \<open>C9: what the advisory loop reads\<close>

lemma captured_Cons: "captured (e # es) = captured [e] @ captured es"
  by (cases "e # es" rule: captured.cases) auto

lemma no_write_Cons: "no_write (e # es) = (no_write [e] \<and> no_write es)"
  by (cases "e # es" rule: no_write.cases) auto

lemma frames_step:
  assumes lf: "case latest_frame s of None \<Rightarrow> True | Some f \<Rightarrow> f \<in> F"
    and rq: "list_all (\<lambda>r. snd r \<in> F) (requests (trace s))"
    and cp: "set (captured [e]) \<subseteq> F"
  shows "(case latest_frame (step e s) of None \<Rightarrow> True | Some f \<Rightarrow> f \<in> F)
         \<and> list_all (\<lambda>r. snd r \<in> F) (requests (trace (step e s)))"
proof (cases e)
  case (Start opened tts rd)
  then show ?thesis using assms
    by (cases rd) (auto simp: start_sel start_requests)
next
  case (Stop tts)
  then show ?thesis using assms by (simp add: stop_sel stop_requests)
next
  case (Tick rd)
  show ?thesis using assms unfolding Tick step_sel tick_requests
    by (cases rd) auto
next
  case ShowStatus
  show ?thesis using assms unfolding ShowStatus step_sel by simp
next
  case (Worker t1 t2 res tts)
  then show ?thesis using assms
    by (auto simp: worker_sel worker_requests split: option.splits)
next
  case (Test t1)
  then show ?thesis using assms by (simp add: test_sel test_requests)
next
  case (Dispatch t2 res tts)
  then show ?thesis using assms
    by (auto simp: wdispatch_sel wdispatch_requests split: option.splits)
qed

lemma frames_exec:
  "(case latest_frame s of None \<Rightarrow> True | Some f \<Rightarrow> f \<in> F) \<Longrightarrow>
   list_all (\<lambda>r. snd r \<in> F) (requests (trace s)) \<Longrightarrow> set (captured es) \<subseteq> F \<Longrightarrow>
   (case latest_frame (exec es s) of None \<Rightarrow> True | Some f \<Rightarrow> f \<in> F)
   \<and> list_all (\<lambda>r. snd r \<in> F) (requests (trace (exec es s)))"
proof (induction es arbitrary: s)
  case Nil
  then show ?case by simp
next
  case (Cons e es)
  from Cons.prems(3) have c: "set (captured [e]) \<subseteq> F" "set (captured es) \<subseteq> F"
    using captured_Cons[of e es] by simp_all
  from frames_step[OF Cons.prems(1,2) c(1)]
  have "case latest_frame (step e s) of None \<Rightarrow> True | Some f \<Rightarrow> f \<in> F"
    and "list_all (\<lambda>r. snd r \<in> F) (requests (trace (step e s)))" by simp_all
  from Cons.IH[OF this c(2)] show ?case by simp
qed

lemma same_frame_step:
  assumes lf: "latest_frame s = Some fr" and nw: "no_write [e]"
  shows "latest_frame (step e s) = Some fr
         \<and> (\<exists>new. requests (trace (step e s)) = requests (trace s) @ new
                  \<and> list_all (\<lambda>r. snd r = fr) new)"
proof (cases e)
  case (Start opened tts rd)
  then show ?thesis using assms by (cases rd) (simp_all add: start_sel start_requests)
next
  case (Stop tts)
  then show ?thesis using assms by (simp add: stop_sel stop_requests)
next
  case (Tick rd)
  with nw have "rd = None" by (cases rd) simp_all
  then show ?thesis using lf unfolding Tick step_sel tick_requests by simp
next
  case ShowStatus
  show ?thesis using lf unfolding ShowStatus step_sel by simp
next
  case (Worker t1 t2 res tts)
  then show ?thesis using lf by (simp add: worker_sel worker_requests)
next
  case (Test t1)
  then show ?thesis using lf by (simp add: test_sel test_requests)
next
  case (Dispatch t2 res tts)
  then show ?thesis using lf by (simp add: wdispatch_sel wdispatch_requests)
qed

lemma same_frame_exec:
  "latest_frame s = Some fr \<Longrightarrow> no_write es \<Longrightarrow>
   latest_frame (exec es s) = Some fr
   \<and> (\<exists>new. requests (trace (exec es s)) = requests (trace s) @ new
            \<and> list_all (\<lambda>r. snd r = fr) new)"
proof (induction es arbitrary: s)
  case Nil
  then show ?case by simp
next
  case (Cons e es)
  from Cons.prems(2) have nw: "no_write [e]" "no_write es" using no_write_Cons by blast+
  from same_frame_step[OF Cons.prems(1) nw(1)]
  obtain n1 where 1: "latest_frame (step e s) = Some fr"
    "requests (trace (step e s)) = requests (trace s) @ n1" "list_all (\<lambda>r. snd r = fr) n1"
    by blast
  from Cons.IH[OF 1(1) nw(2)]
  obtain n2 where 2: "latest_frame (exec es (step e s)) = Some fr"
    "requests (trace (exec es (step e s))) = requests (trace (step e s)) @ n2"
    "list_all (\<lambda>r. snd r = fr) n2"
    by blast
  from 1 2 have "requests (trace (exec (e # es) s)) = requests (trace s) @ (n1 @ n2)"
    "list_all (\<lambda>r. snd r = fr) (n1 @ n2)" by simp_all
  with 2(1) show ?case by auto
qed

text \<open>
  C9. What the advisory loop reads from \<open>latest_frame\<close> is either nothing or a frame as
  the camera returned it: in every schedule, the frame held and every frame sent with a
  request are frames of the schedule's camera reads. After a write of the frame \<open>fr\<close>,
  and along any schedule without a further write (handler calls, failed ticks, worker
  passes whole or in two steps), \<open>latest_frame\<close> stays \<open>fr\<close> and every request sent
  carries \<open>fr\<close>: all the reads between two writes observe the same frame. A step of the
  schedule is a whole attribute read or a whole attribute assignment of the source.
\<close>
theorem reads_between_writes:
  "list_all (\<lambda>r. snd r \<in> set (captured evs)) (requests (trace (exec evs init_app)))
   \<and> (case latest_frame (exec evs init_app) of None \<Rightarrow> True | Some f \<Rightarrow> f \<in> set (captured evs))
   \<and> (is_running s \<and> cap s \<noteq> None \<and> no_write es \<longrightarrow>
        latest_frame (update_frame (Some fr) s) = Some fr
      \<and> latest_frame (exec es (update_frame (Some fr) s)) = Some fr
      \<and> take (length (requests (trace s))) (requests (trace (exec es (update_frame (Some fr) s))))
          = requests (trace s)
      \<and> list_all (\<lambda>r. snd r = fr)
          (drop (length (requests (trace s)))
             (requests (trace (exec es (update_frame (Some fr) s))))))"
proof (intro conjI impI)
  have "(case latest_frame (exec evs init_app) of None \<Rightarrow> True | Some f \<Rightarrow> f \<in> set (captured evs))
     \<and> list_all (\<lambda>r. snd r \<in> set (captured evs)) (requests (trace (exec evs init_app)))"
    by (rule frames_exec) (simp_all add: init_app_def trace_simps)
  then show "list_all (\<lambda>r. snd r \<in> set (captured evs)) (requests (trace (exec evs init_app)))"
    and "case latest_frame (exec evs init_app) of None \<Rightarrow> True | Some f \<Rightarrow> f \<in> set (captured evs)"
    by simp_all
next
  assume a: "is_running s \<and> cap s \<noteq> None \<and> no_write es"
  let ?u = "update_frame (Some fr) s"
  from a have u: "latest_frame ?u = Some fr" "requests (trace ?u) = requests (trace s)"
    by (simp_all add: update_frame_sel trace_simps)
  from a have nw: "no_write es" by simp
  from same_frame_exec[OF u(1) nw] u(2)
  obtain new where n: "latest_frame (exec es ?u) = Some fr"
    "requests (trace (exec es ?u)) = requests (trace s) @ new" "list_all (\<lambda>r. snd r = fr) new"
    by auto
  show "latest_frame ?u = Some fr" by (rule u(1))
  show "latest_frame (exec es ?u) = Some fr" by (rule n(1))
  show "take (length (requests (trace s))) (requests (trace (exec es ?u))) = requests (trace s)"
    by (simp add: n(2))
  show "list_all (\<lambda>r. snd r = fr) (drop (length (requests (trace s))) (requests (trace (exec es ?u))))"
    by (simp add: n(2) n(3))
qed

theorem reads_between_writes_witness:
  "let s = start_navigation True Spoken (Some [7]) init_app;
       es = [Worker 10 10 (ResponseText (lit ''Go.'')) Spoken, Tick None, Test 15, ShowStatus,
             Dispatch (31 / 2) (Raised (lit ''timeout'')) Spoken,
             Worker 40 40 (ResponseText (lit ''Go.'')) Spoken] in
     is_running s \<and> cap s \<noteq> None \<and> no_write es
   \<and> requests (trace (exec es (update_frame (Some [8]) s)))
       = [(10, [8]), (31 / 2, [8]), (40, [8])]
   \<and> list_all (\<lambda>r. snd r = [8])
        (drop (length (requests (trace s))) (requests (trace (exec es (update_frame (Some [8]) s)))))
   \<and> list_all (\<lambda>r. snd r \<in> set (captured (Start True Spoken (Some [7]) # Tick (Some [8]) # es)))
        (requests (trace (exec (Start True Spoken (Some [7]) # Tick (Some [8]) # es) init_app)))"
proof -
  let ?s = "start_navigation True Spoken (Some [7]) init_app"
  let ?es = "[Worker 10 10 (ResponseText (lit ''Go.'')) Spoken, Tick None, Test 15, ShowStatus,
             Dispatch (31 / 2) (Raised (lit ''timeout'')) Spoken,
             Worker 40 40 (ResponseText (lit ''Go.'')) Spoken]"
  have h: "is_running ?s \<and> cap ?s \<noteq> None \<and> no_write ?es"
    by (simp add: start_sel init_app_def)
  have r: "requests (trace (exec ?es (update_frame (Some [8]) ?s)))
       = [(10, [8]), (31 / 2, [8]), (40, [8])]"
    by (simp add: start_sel worker_sel test_sel wdispatch_sel update_frame_sel loop_test_def
        start_requests worker_requests test_requests wdispatch_requests tick_requests
        init_app_def trace_simps)
  from reads_between_writes[of "Start True Spoken (Some [7]) # Tick (Some [8]) # ?es" ?s ?es "[8]"] h
  have "list_all (\<lambda>r. snd r = [8])
        (drop (length (requests (trace ?s))) (requests (trace (exec ?es (update_frame (Some [8]) ?s)))))"
    and "list_all (\<lambda>r. snd r \<in> set (captured (Start True Spoken (Some [7]) # Tick (Some [8]) # ?es)))
        (requests (trace (exec (Start True Spoken (Some [7]) # Tick (Some [8]) # ?es) init_app)))"
    by blast+
  with h r show ?thesis unfolding Let_def by blast
qed

subsection \<open>C10: a failed camera read\<close>

lemma failed_ticks_exec:
  "failed_ticks es \<Longrightarrow>
     latest_frame (exec es s) = latest_frame s \<and> is_running (exec es s) = is_running s
   \<and> cap (exec es s) = cap s \<and> workers (exec es s) = workers s
   \<and> last_spoken_time (exec es s) = last_spoken_time s
   \<and> requests (trace (exec es s)) = requests (trace s)"
proof (induction es arbitrary: s rule: failed_ticks.induct)
  case 1
  then show ?case by simp
next
  case (2 es)
  then have "failed_ticks es" by simp
  from "2.IH"[OF this, of "step (Tick None) s"] show ?case
    unfolding exec.simps step_sel tick_requests by simp
qed simp_all

text \<open>
  C10. A tick whose camera read fails changes only the trace (the read) and the pending
  tick count (the tick is scheduled again): \<open>latest_frame\<close> keeps the frame of the last
  successful read, and the running flag, the timestamp, the camera handle and the status
  are unchanged. So after a successful read of the frame \<open>fr\<close> followed by any number of
  failed reads, a due pass of the advisory loop sends \<open>fr\<close>.
\<close>
theorem failed_read_keeps_frame:
  "update_frame None s =
     (if is_running s \<and> cap s \<noteq> None
      then s\<lparr>after_ticks := Suc (after_ticks s), trace := trace s @ [(UiThread, ReadCamera)]\<rparr>
      else s)
   \<and> latest_frame (update_frame None s) = latest_frame s
   \<and> latest_frame (step (Tick None) s) = latest_frame s
   \<and> is_running (step (Tick None) s) = is_running s
   \<and> last_spoken_time (step (Tick None) s) = last_spoken_time s
   \<and> cap (step (Tick None) s) = cap s
   \<and> after_status (step (Tick None) s) = after_status s
   \<and> ai_status_label (step (Tick None) s) = ai_status_label s
   \<and> (is_running s \<and> cap s \<noteq> None \<and> 0 < workers s \<and> failed_ticks evs
        \<and> 4 < t1 - last_spoken_time s \<longrightarrow>
        latest_frame (exec evs (update_frame (Some fr) s)) = Some fr
        \<and> requests (trace (run_gemini_assistant t1 t2 res tts (exec evs (update_frame (Some fr) s))))
            = requests (trace s) @ [(t2, fr)])"
proof -
  have 1: "update_frame None s =
     (if is_running s \<and> cap s \<noteq> None
      then s\<lparr>after_ticks := Suc (after_ticks s), trace := trace s @ [(UiThread, ReadCamera)]\<rparr>
      else s)"
    by (simp add: update_frame_def Let_def log_def)
  have 2: "latest_frame (update_frame None s) = latest_frame s"
    by (simp add: update_frame_sel)
  have 3: "latest_frame (step (Tick None) s) = latest_frame s"
    "is_running (step (Tick None) s) = is_running s"
    "last_spoken_time (step (Tick None) s) = last_spoken_time s"
    "cap (step (Tick None) s) = cap s"
    unfolding step_sel by simp_all
  have 4: "after_status (step (Tick None) s) = after_status s"
    "ai_status_label (step (Tick None) s) = ai_status_label s"
    by (simp_all add: update_frame_sel)
  have 5: "is_running s \<and> cap s \<noteq> None \<and> 0 < workers s \<and> failed_ticks evs
        \<and> 4 < t1 - last_spoken_time s \<longrightarrow>
        latest_frame (exec evs (update_frame (Some fr) s)) = Some fr
        \<and> requests (trace (run_gemini_assistant t1 t2 res tts (exec evs (update_frame (Some fr) s))))
            = requests (trace s) @ [(t2, fr)]"
  proof
    assume a: "is_running s \<and> cap s \<noteq> None \<and> 0 < workers s \<and> failed_ticks evs
        \<and> 4 < t1 - last_spoken_time s"
    let ?u = "update_frame (Some fr) s"
    from a have ft: "failed_ticks evs" by simp
    have u: "latest_frame ?u = Some fr" "is_running ?u" "workers ?u = workers s"
      "last_spoken_time ?u = last_spoken_time s" "requests (trace ?u) = requests (trace s)"
      using a by (simp_all add: update_frame_sel trace_simps)
    from failed_ticks_exec[OF ft, of ?u] u
    have x: "latest_frame (exec evs ?u) = Some fr" "is_running (exec evs ?u)"
      "workers (exec evs ?u) = workers s" "last_spoken_time (exec evs ?u) = last_spoken_time s"
      "requests (trace (exec evs ?u)) = requests (trace s)"
      by simp_all
    with a show "latest_frame (exec evs ?u) = Some fr
        \<and> requests (trace (run_gemini_assistant t1 t2 res tts (exec evs ?u)))
            = requests (trace s) @ [(t2, fr)]"
      by (simp add: worker_requests)
  qed
  from 1 2 3 4 5 show ?thesis by blast
qed

theorem failed_read_keeps_frame_witness:
  "let s = start_navigation True Spoken (Some [7]) init_app in
     is_running s \<and> cap s \<noteq> None \<and> 0 < workers s \<and> failed_ticks [Tick None, Tick None, Tick None]
   \<and> 4 < 10 - last_spoken_time s
   \<and> latest_frame (exec [Tick None, Tick None, Tick None] (update_frame (Some [8]) s)) = Some [8]
   \<and> requests (trace (run_gemini_assistant 10 10 (ResponseText (lit ''Go.'')) Spoken
        (exec [Tick None, Tick None, Tick None] (update_frame (Some [8]) s)))) = [(10, [8])]"
proof -
  let ?s = "start_navigation True Spoken (Some [7]) init_app"
  have h: "is_running ?s \<and> cap ?s \<noteq> None \<and> 0 < workers ?s
      \<and> failed_ticks [Tick None, Tick None, Tick None] \<and> 4 < 10 - last_spoken_time ?s"
    by (simp add: start_sel init_app_def)
  have r: "requests (trace ?s) = []" by (simp add: start_requests init_app_def trace_simps)
  from failed_read_keeps_frame[of ?s "[Tick None, Tick None, Tick None]" 10 "[8]" 10
      "ResponseText (lit ''Go.'')" Spoken] h r
  show ?thesis unfolding Let_def by auto
qed

end
